theory Spec2Isabelle
  imports Complex_Main "HOL-Library.Sublist"
begin

text \<open>
  The segment saver of \<open>src/unnamed/part_000\<close> (class \<open>segment_saver\<close>): track
  reconciliation (\<open>getSegmentInfoList_\<close>), track alignment, the per-segment pipeline, the
  rolling playlist and the pacing of a cycle (\<open>processSegmentList\<close>).

  A time or a duration is a rational, the value of a finite double, and the
  media-sequence counter is a natural number (integers are exact in a double up to
  \<open>2^53\<close>). The arithmetic of the pacer is JavaScript's: every operation gives the
  double nearest to the exact result (section \<open>JavaScript numbers\<close>). The difference
  \<open>endTime - startTime\<close> of a reference is kept exact. A JavaScript value that may be
  \<open>null\<close> or \<open>undefined\<close> is an \<open>option\<close>, with \<open>None\<close> for the missing value. A name cannot end
  in an underscore here, so the trailing underscore of the source's private names is
  dropped.
\<close>

section \<open>Segment index and track reconciliation\<close>

text \<open>
  Modelled from the spec: the segment index (\<open>media/segment_index.js\<close> is not among the
  sources). A reference exposes a playable URI (\<open>getUrisInner()[0]\<close>), a start and an end
  time, and the URI of its initialization segment
  (\<open>initSegmentReference.getUris()[0]\<close>); an index is the ordered list of its references,
  and \<open>forEachTopLevelReference\<close> visits them in that order.
\<close>

record segment_reference =
  uri :: string
  startTime :: rat
  endTime :: rat
  initSegmentUri :: string

record segment_index =
  references :: "segment_reference list"

definition forEachTopLevelReference :: "segment_index \<Rightarrow> ('s \<Rightarrow> segment_reference \<Rightarrow> 's) \<Rightarrow> 's \<Rightarrow> 's" where
  "forEachTopLevelReference segmentIndex f s = foldl f s (references segmentIndex)"

text \<open>
  The fields of a \<open>segment_saver\<close> that the methods read (\<open>endPlayTime_\<close> and
  \<open>manifestExpired_\<close> are stored and never read).
\<close>

record segment_saver =
  audioSegmentURIList :: "string list"
  audioSegmentDurationList :: "rat list"
  videoSegmentURIList :: "string list"
  videoSegmentDurationList :: "rat list"
  maxSegmentNum :: int
  audioPLName :: string
  videoPLName :: string
  savePath :: string
  mergePath :: string
  resultPath :: string
  decryptKey :: string
  keyId :: string
  decryptScript :: string

text \<open>The continuity token: the object \<open>{ audio, video }\<close> passed in and returned.\<close>

record continuity_token =
  audio :: "string option"
  video :: "string option"

text \<open>
  The local variables of \<open>getSegmentInfoList_\<close> that the callback of
  \<open>forEachTopLevelReference\<close> reads and writes.
\<close>

record scan_state =
  foundLatestName :: bool
  segmentURIList :: "string list"
  segmentDurationList :: "rat list"
  totalList :: "string list"
  totalSegList :: "rat list"

text \<open>The body of the callback (lines 137 to 148), for one reference.\<close>

definition visit_reference :: "string option \<Rightarrow> scan_state \<Rightarrow> segment_reference \<Rightarrow> scan_state" where
  "visit_reference lastSegmentURI s ref =
     (let segURI = uri ref;
          segDuration = endTime ref - startTime ref;
          s1 = s\<lparr>totalList := totalList s @ [segURI],
                 totalSegList := totalSegList s @ [segDuration]\<rparr>;
          s2 = (if foundLatestName s1
                then s1\<lparr>segmentURIList := segmentURIList s1 @ [segURI],
                        segmentDurationList := segmentDurationList s1 @ [segDuration]\<rparr>
                else s1)
      in if Some segURI = lastSegmentURI then s2\<lparr>foundLatestName := True\<rparr> else s2)"

text \<open>
  \<open>getSegmentInfoList_\<close> (lines 118 to 158). The result is the pair of lists the method
  stores in the track's fields (lines 160 to 166, in \<open>new_segment_saver\<close> below); on an
  index without references the method returns early and the fields keep the empty lists
  the constructor gave them. \<open>slice(firstIndex)\<close> of a non-negative integer is \<open>drop\<close>.
\<close>

definition getSegmentInfoList :: "segment_saver \<Rightarrow> segment_index \<Rightarrow> string option \<Rightarrow> string list \<times> rat list" where
  "getSegmentInfoList this segmentIndex lastSegmentURI =
     (case references segmentIndex of
        [] \<Rightarrow> ([], [])
      | ref0 # _ \<Rightarrow>
          (let s0 = \<lparr>foundLatestName = False,
                     segmentURIList = [initSegmentUri ref0],
                     segmentDurationList = [0],
                     totalList = [],
                     totalSegList = []\<rparr>;
               s = forEachTopLevelReference segmentIndex (visit_reference lastSegmentURI) s0
           in if length (segmentURIList s) = 1 \<and> 0 \<le> length (totalList s)
              then (let firstIndex = max 0 (int (length (totalList s)) - maxSegmentNum this)
                    in (segmentURIList s @ drop (nat firstIndex) (totalList s),
                        segmentDurationList s @ drop (nat firstIndex) (totalSegList s)))
              else (segmentURIList s, segmentDurationList s)))"

text \<open>
  The constructor (lines 40 to 97): it stores its arguments and fills the four lists.
  The log lines, and the creation of missing directories (directories are not part of
  this model), are left out.
\<close>

definition new_segment_saver ::
  "segment_index \<Rightarrow> segment_index \<Rightarrow> string \<Rightarrow> string \<Rightarrow> string \<Rightarrow> string \<Rightarrow> string \<Rightarrow> string \<Rightarrow>
   int \<Rightarrow> string \<Rightarrow> string \<Rightarrow> continuity_token \<Rightarrow> segment_saver" where
  "new_segment_saver audioSegmentIndex videoSegmentIndex key kid script resultDir downloadDir
     mergeDir maxNum audioName videoName lastSegmentURI =
     (let this = \<lparr>audioSegmentURIList = [], audioSegmentDurationList = [],
                   videoSegmentURIList = [], videoSegmentDurationList = [],
                   maxSegmentNum = maxNum, audioPLName = audioName, videoPLName = videoName,
                   savePath = downloadDir, mergePath = mergeDir, resultPath = resultDir,
                   decryptKey = key, keyId = kid, decryptScript = script\<rparr>;
          a = getSegmentInfoList this audioSegmentIndex (audio lastSegmentURI);
          this = this\<lparr>audioSegmentURIList := fst a, audioSegmentDurationList := snd a\<rparr>;
          v = getSegmentInfoList this videoSegmentIndex (video lastSegmentURI)
      in this\<lparr>videoSegmentURIList := fst v, videoSegmentDurationList := snd v\<rparr>)"

text \<open>The duration the callback computes for a reference.\<close>

definition ref_duration :: "segment_reference \<Rightarrow> rat" where
  "ref_duration ref = endTime ref - startTime ref"

text \<open>
  The references strictly after the first one whose URI is the last-processed URI
  (none when no reference has it).
\<close>

definition refs_after :: "string option \<Rightarrow> segment_reference list \<Rightarrow> segment_reference list" where
  "refs_after lastSegmentURI refs = drop 1 (dropWhile (\<lambda>r. Some (uri r) \<noteq> lastSegmentURI) refs)"

section \<open>Track alignment\<close>

text \<open>
  Lines 190 to 199 of \<open>processSegmentList\<close>: the longer of the two URI lists is popped
  \<open>|sizeOffest|\<close> times. (\<open>pop\<close> on an empty array does nothing.) The duration lists are
  not touched.
\<close>

fun pop_n :: "nat \<Rightarrow> 'a list \<Rightarrow> 'a list" where
  "pop_n 0 xs = xs"
| "pop_n (Suc k) xs = pop_n k (butlast xs)"

definition alignTracks :: "segment_saver \<Rightarrow> segment_saver" where
  "alignTracks this =
     (if length (audioSegmentURIList this) \<noteq> length (videoSegmentURIList this)
      then (let sizeOffest = int (length (videoSegmentURIList this))
                             - int (length (audioSegmentURIList this))
            in if sizeOffest > 0
               then this\<lparr>videoSegmentURIList := pop_n (nat \<bar>sizeOffest\<bar>) (videoSegmentURIList this)\<rparr>
               else this\<lparr>audioSegmentURIList := pop_n (nat \<bar>sizeOffest\<bar>) (audioSegmentURIList this)\<rparr>)
      else this)"

section \<open>JavaScript strings\<close>

text \<open>
  Strings are lists of 8-bit characters. \<open>s.includes(pat)\<close>, \<open>s.split(sep).pop()\<close> (the
  text after the last separator) and \<open>xs.join(sep)\<close>.
\<close>

fun str_includes :: "string \<Rightarrow> string \<Rightarrow> bool" where
  "str_includes [] pat = (pat = [])"
| "str_includes (c # cs) pat = (prefix pat (c # cs) \<or> str_includes cs pat)"

definition after_last :: "char \<Rightarrow> string \<Rightarrow> string" where
  "after_last sep s = rev (takeWhile (\<lambda>c. c \<noteq> sep) (rev s))"

fun join :: "string \<Rightarrow> string list \<Rightarrow> string" where
  "join sep [] = []"
| "join sep [x] = x"
| "join sep (x # y # ys) = x @ sep @ join sep (y # ys)"

text \<open>
  Node's \<open>path.extname\<close> and \<open>path.basename(p, ext)\<close> (POSIX flavour), on a name without
  \<open>/\<close>, which is what \<open>split('/').pop()\<close> returns: the extension runs from the last
  dot, and is empty when there is no dot, when the only dot is the first character, and
  for \<open>..\<close>; \<open>basename\<close> removes the extension when the name ends with it.
\<close>

definition path_extname :: "string \<Rightarrow> string" where
  "path_extname p =
     (if CHR ''.'' \<notin> set p then []
      else (let startDot = length p - length (after_last (CHR ''.'') p) - 1
            in if startDot = 0 \<or> p = ''..'' then [] else drop startDot p))"

definition path_basename :: "string \<Rightarrow> string \<Rightarrow> string" where
  "path_basename p ext =
     (if ext \<noteq> [] \<and> ext \<noteq> p \<and> suffix ext p then take (length p - length ext) p else p)"

text \<open>Decimal digits, \<open>parseInt\<close> on a string of digits, and a number as text.\<close>

definition is_digit :: "char \<Rightarrow> bool" where
  "is_digit c = (c \<in> set ''0123456789'')"

definition digit_value :: "char \<Rightarrow> nat" where
  "digit_value c = length (takeWhile (\<lambda>d. d \<noteq> c) ''0123456789'')"

definition digit_char :: "nat \<Rightarrow> char" where
  "digit_char d = ''0123456789'' ! d"

fun str_of_nat :: "nat \<Rightarrow> string" where
  "str_of_nat n =
     (if n < 10 then [digit_char n] else str_of_nat (n div 10) @ [digit_char (n mod 10)])"

text \<open>
  \<open>parseInt\<close> reads the leading decimal digits; with none it is \<open>NaN\<close> (\<open>None\<close>). It is
  applied only to what \<open>replace(/^\D+/g, '')\<close> leaves of a match, a text that starts with
  a digit and holds digits only.
\<close>

definition parseInt :: "string \<Rightarrow> nat option" where
  "parseInt s =
     (case takeWhile is_digit s of
        [] \<Rightarrow> None
      | d # ds \<Rightarrow> Some (foldl (\<lambda>acc c. 10 * acc + digit_value c) 0 (d # ds)))"

definition number_string :: "nat option \<Rightarrow> string" where
  "number_string n = (case n of None \<Rightarrow> ''NaN'' | Some k \<Rightarrow> str_of_nat k)"

text \<open>
  The regular expression \<open>/#EXT-X-MEDIA-SEQUENCE:\d+/i\<close>. The flag \<open>i\<close> lets each letter
  of the pattern match in either case, so the pattern is a list of pairs (upper case,
  lower case). \<open>matches_at\<close> says that the pattern, followed by at least one digit,
  matches at the start of a text; \<open>regex_search\<close> finds the leftmost match and returns
  the text before it, the match (with all the digits that follow: \<open>\d+\<close> is greedy) and
  the text after it.
\<close>

definition sequence_directive :: "(char \<times> char) list" where
  "sequence_directive = zip ''#EXT-X-MEDIA-SEQUENCE:'' ''#ext-x-media-sequence:''"

fun matches_at :: "(char \<times> char) list \<Rightarrow> string \<Rightarrow> bool" where
  "matches_at [] s = (case s of [] \<Rightarrow> False | d # _ \<Rightarrow> is_digit d)"
| "matches_at (q # qs) [] = False"
| "matches_at (q # qs) (c # cs) = ((c = fst q \<or> c = snd q) \<and> matches_at qs cs)"

fun regex_search :: "string \<Rightarrow> (string \<times> string \<times> string) option" where
  "regex_search s =
     (if matches_at sequence_directive s
      then Some ([], take 22 s @ takeWhile is_digit (drop 22 s), dropWhile is_digit (drop 22 s))
      else (case s of
              [] \<Rightarrow> None
            | c # cs \<Rightarrow> map_option (\<lambda>(before, matched, rest). (c # before, matched, rest))
                         (regex_search cs)))"

section \<open>JavaScript numbers\<close>

text \<open>
  A number is a finite double, given by its value, or one of \<open>Infinity\<close>, \<open>-Infinity\<close>
  and \<open>NaN\<close>. The two zeros are one value here: they differ in no comparison, difference
  or product that the pacer computes.
\<close>

datatype js_number = Num rat | PosInfinity | NegInfinity | NaN

text \<open>The number of binary digits of a positive integer.\<close>

function bit_length :: "int \<Rightarrow> int" where
  "bit_length n = (if n \<le> 0 then 0 else 1 + bit_length (n div 2))"
  by pat_completeness auto
termination by (relation "measure nat") auto

declare bit_length.simps [simp del]

text \<open>
  The binary exponent of a positive rational \<open>x\<close>: the integer \<open>e\<close> with
  \<open>2^e \<le> x < 2^(e+1)\<close>.
\<close>

definition binary_exponent :: "rat \<Rightarrow> int" where
  "binary_exponent x =
     (let (p, q) = quotient_of x;
          k = bit_length p - bit_length q
      in if 2 powi k \<le> x then k else k - 1)"

definition round_half_even :: "rat \<Rightarrow> int" where
  "round_half_even x =
     (let f = \<lfloor>x\<rfloor>; r = x - of_int f
      in if r < 1 / 2 then f
         else if 1 / 2 < r then f + 1
         else if even f then f else f + 1)"

text \<open>
  The double nearest to a rational (IEEE 754 binary64, round to nearest, ties to even):
  a significand of 53 binary digits, exponents from \<open>-1022\<close> (below it the spacing stays
  \<open>2^-1074\<close>, the subnormal numbers) to \<open>1023\<close> (above it the result is infinite).
\<close>

definition round_double :: "rat \<Rightarrow> js_number" where
  "round_double x =
     (if x = 0 then Num 0
      else (let a = \<bar>x\<bar>;
                e = max (binary_exponent a) (- 1022);
                m = round_half_even (a * 2 powi (52 - e))
            in if 1023 < e \<or> (e = 1023 \<and> 2 ^ 53 \<le> m)
               then (if 0 < x then PosInfinity else NegInfinity)
               else Num (sgn x * of_int m * 2 powi (e - 52))))"

text \<open>The operators \<open>-\<close>, \<open>*\<close> and \<open><\<close> on numbers.\<close>

fun js_sub :: "js_number \<Rightarrow> js_number \<Rightarrow> js_number" where
  "js_sub (Num a) (Num b) = round_double (a - b)"
| "js_sub NaN y = NaN"
| "js_sub x NaN = NaN"
| "js_sub PosInfinity PosInfinity = NaN"
| "js_sub NegInfinity NegInfinity = NaN"
| "js_sub PosInfinity y = PosInfinity"
| "js_sub NegInfinity y = NegInfinity"
| "js_sub (Num a) PosInfinity = NegInfinity"
| "js_sub (Num a) NegInfinity = PosInfinity"

fun js_mul :: "js_number \<Rightarrow> js_number \<Rightarrow> js_number" where
  "js_mul (Num a) (Num b) = round_double (a * b)"
| "js_mul NaN y = NaN"
| "js_mul x NaN = NaN"
| "js_mul (Num a) PosInfinity = (if a = 0 then NaN else if 0 < a then PosInfinity else NegInfinity)"
| "js_mul (Num a) NegInfinity = (if a = 0 then NaN else if 0 < a then NegInfinity else PosInfinity)"
| "js_mul PosInfinity (Num b) = (if b = 0 then NaN else if 0 < b then PosInfinity else NegInfinity)"
| "js_mul NegInfinity (Num b) = (if b = 0 then NaN else if 0 < b then NegInfinity else PosInfinity)"
| "js_mul PosInfinity PosInfinity = PosInfinity"
| "js_mul NegInfinity NegInfinity = PosInfinity"
| "js_mul PosInfinity NegInfinity = NegInfinity"
| "js_mul NegInfinity PosInfinity = NegInfinity"

fun js_lt :: "js_number \<Rightarrow> js_number \<Rightarrow> bool" where
  "js_lt (Num a) (Num b) = (a < b)"
| "js_lt NaN y = False"
| "js_lt x NaN = False"
| "js_lt PosInfinity y = False"
| "js_lt x NegInfinity = False"
| "js_lt NegInfinity y = True"
| "js_lt (Num a) PosInfinity = True"

text \<open>
  Every finite double is a whole multiple of \<open>2^-1074\<close>; \<open>on_grid\<close> says so of a number
  (it is used in the proofs only).
\<close>

definition on_grid :: "js_number \<Rightarrow> bool" where
  "on_grid x = (case x of Num v \<Rightarrow> (\<exists>k::int. v = of_int k * 2 powi (- 1074)) | _ \<Rightarrow> True)"

section \<open>Errors, collaborators and the state of a cycle\<close>

text \<open>
  Modelled from the spec: the structured error of \<open>util/error.js\<close> (not among the
  sources) carries a severity, a category and a code. Only the members that
  \<open>processSegmentList\<close> names are known; each enumeration gets one more member so that it
  is not a singleton. The other ways a cycle can end early are JavaScript's own
  exceptions: a \<open>TypeError\<close> (a property read on \<open>null\<close> or \<open>undefined\<close>), a download
  that rejects, a merge that rejects (neither \<open>await\<close> is inside a \<open>try\<close>), and
  \<open>unlinkSync\<close> on a file that does not exist.
\<close>

datatype severity = RECOVERABLE | CRITICAL

datatype category = SEGMENT | OTHER_CATEGORY

datatype code = SEGMENT_MANIPULATION_FAILED | OTHER_CODE

datatype js_error =
    StructuredError severity category code
  | TypeError
  | DownloadRejected
  | MergeRejected
  | UnlinkFailed

text \<open>
  What the awaited \<open>mergeFiles(inputPathList, mergeFileName)\<close> of line 248 can give: the
  promise resolves to a status, truthy or falsy, or it rejects.
\<close>

datatype merge_outcome = Resolved bool | Rejected

text \<open>
  The collaborators, as the outcomes they give: whether \<open>socks5_http_download(url,
  saveName)\<close> resolves; the outcome of \<open>mergeFiles(inputPathList, mergeFileName)\<close> and
  whether the call leaves a file at \<open>mergeFileName\<close>, both of which may depend on the
  files that exist when it is called; the exit code of \<open>shell.exec(decryptCommand)\<close>;
  \<open>appRoot.path\<close>; the text of a number in a template literal; and the two readings of
  \<open>Date.now()\<close> (before the loop, after the cleanup).
\<close>

record environment =
  download_resolves :: "string \<Rightarrow> string \<Rightarrow> bool"
  mergeFiles_outcome :: "string list \<Rightarrow> string \<Rightarrow> string list \<Rightarrow> merge_outcome"
  mergeFiles_writes :: "string list \<Rightarrow> string \<Rightarrow> string list \<Rightarrow> bool"
  shell_exec_code :: "string \<Rightarrow> int"
  appRoot_path :: string
  number_text :: "rat \<Rightarrow> string"
  now_before_loop :: rat
  now_after_cleanup :: rat

text \<open>
  What a cycle reads and writes outside the saver: the files that exist (a path may
  occur more than once; a file exists when its path occurs), the text last written to
  each playlist file, and the two playlist arrays of the caller, which
  \<open>processSegmentList\<close> updates in place. A successful download and a successful
  decryption create their output file, and a failed one creates none; the merge leaves
  its output file when the environment says so.
\<close>

record world =
  files :: "string list"
  playlistFiles :: "string \<rightharpoonup> string"
  audioMediaPLTemplate :: "string list"
  videoMediaPLTemplate :: "string list"

text \<open>The world together with the local variables that outlive an iteration of the loop.\<close>

record cycle_state = world +
  lastAudioURI :: "string option"
  lastVideoURI :: "string option"
  segmentDuration :: "rat option"

datatype track = Audio | Video

definition pathSuffix :: "track \<Rightarrow> string" where
  "pathSuffix t = (case t of Audio \<Rightarrow> ''audio/'' | Video \<Rightarrow> ''video/'')"

definition initFile :: string where
  "initFile = ''init.mp4''"

definition playlistName :: "segment_saver \<Rightarrow> track \<Rightarrow> string" where
  "playlistName this t = (case t of Audio \<Rightarrow> audioPLName this | Video \<Rightarrow> videoPLName this)"

definition mediaPlaylistTemplate :: "track \<Rightarrow> 'a world_scheme \<Rightarrow> string list" where
  "mediaPlaylistTemplate t st =
     (case t of Audio \<Rightarrow> audioMediaPLTemplate st | Video \<Rightarrow> videoMediaPLTemplate st)"

definition set_mediaPlaylistTemplate :: "track \<Rightarrow> string list \<Rightarrow> 'a world_scheme \<Rightarrow> 'a world_scheme" where
  "set_mediaPlaylistTemplate t tpl st =
     (case t of Audio \<Rightarrow> st\<lparr>audioMediaPLTemplate := tpl\<rparr>
              | Video \<Rightarrow> st\<lparr>videoMediaPLTemplate := tpl\<rparr>)"

definition newline :: char where
  "newline = CHR 0x0A"

definition nth_opt :: "'a list \<Rightarrow> nat \<Rightarrow> 'a option" where
  "nth_opt xs i = (if i < length xs then Some (xs ! i) else None)"

section \<open>The rolling playlist\<close>

text \<open>
  Lines 268 to 270: the entry of a committed segment, one array element of two lines.
  A duration that is \<open>undefined\<close> prints as such.
\<close>

definition segmentTemplate :: "environment \<Rightarrow> rat option \<Rightarrow> string \<Rightarrow> string" where
  "segmentTemplate env segDuration newSegmentUri =
     ''#EXTINF:'' @ (case segDuration of None \<Rightarrow> ''undefined'' | Some d \<Rightarrow> number_text env d)
       @ '','' @ [newline] @ newSegmentUri"

text \<open>Lines 275 to 280: the elements of the playlist array that are segment entries.\<close>

definition segment_items :: "string list \<Rightarrow> string list" where
  "segment_items tpl = filter (\<lambda>item. str_includes item ''#EXTINF:'') tpl"

text \<open>
  Lines 292 to 296: the new text of element 0. \<open>regEx.exec\<close> returns \<open>null\<close> when
  nothing matches, and reading \<open>[0]\<close> of it throws: that is \<open>None\<close> here.
\<close>

definition bump_media_sequence :: "string \<Rightarrow> string option" where
  "bump_media_sequence item0 =
     (case regex_search item0 of
        None \<Rightarrow> None
      | Some (before, matched, rest) \<Rightarrow>
          (let oldSequenceNumber = parseInt (dropWhile (\<lambda>c. \<not> is_digit c) matched);
               newSequenceNumber = map_option Suc oldSequenceNumber;
               mediaSequenceStr = ''#EXT-X-MEDIA-SEQUENCE:'' @ number_string newSequenceNumber
           in Some (before @ mediaSequenceStr @ rest)))"

text \<open>
  Lines 282 to 297, the branch taken when the number of entries equals
  \<open>maxSegmentNum_\<close>. With no entry at all \<open>shift()\<close> gives \<open>undefined\<close>,
  \<open>splice(indexOf(undefined), 1)\<close> is \<open>splice(-1, 1)\<close>, which removes the last element,
  and \<open>oldItem.split\<close> throws. Element 0 is read after the oldest entry has been
  removed; on an empty array it is \<open>undefined\<close>, which the regular expression does not
  match.
\<close>

definition evict_oldest :: "segment_saver \<Rightarrow> track \<Rightarrow> cycle_state \<Rightarrow> (js_error \<times> cycle_state) + cycle_state" where
  "evict_oldest this t st =
     (let tpl = mediaPlaylistTemplate t st
      in case segment_items tpl of
           [] \<Rightarrow> Inl (TypeError, set_mediaPlaylistTemplate t (butlast tpl) st)
         | oldItem # _ \<Rightarrow>
             (let st1 = set_mediaPlaylistTemplate t (remove1 oldItem tpl) st;
                  oldFilename = resultPath this @ pathSuffix t @ after_last newline oldItem
              in if oldFilename \<in> set (files st1)
                 then (let st2 = st1\<lparr>files := removeAll oldFilename (files st1)\<rparr>
                       in case mediaPlaylistTemplate t st2 of
                            [] \<Rightarrow> Inl (TypeError, st2)
                          | item0 # items \<Rightarrow>
                              (case bump_media_sequence item0 of
                                 None \<Rightarrow> Inl (TypeError, st2)
                               | Some newItem \<Rightarrow>
                                   Inr (set_mediaPlaylistTemplate t (newItem # items) st2)))
                 else Inl (UnlinkFailed, st1)))"

text \<open>
  Lines 268 to 301: the append of a committed segment to the playlist of its track, and
  the write of the playlist file.
\<close>

definition playlist_append :: "environment \<Rightarrow> segment_saver \<Rightarrow> track \<Rightarrow> string \<Rightarrow> cycle_state \<Rightarrow> (js_error \<times> cycle_state) + cycle_state" where
  "playlist_append env this t nameOnly st =
     (let newSegmentUri = nameOnly @ ''.mp4'';
          entry = segmentTemplate env (segmentDuration st) newSegmentUri;
          segmentItemList = segment_items (mediaPlaylistTemplate t st);
          evicted = (if int (length segmentItemList) = maxSegmentNum this
                     then evict_oldest this t st else Inr st)
      in case evicted of
           Inl e \<Rightarrow> Inl e
         | Inr st1 \<Rightarrow>
             (let tpl = mediaPlaylistTemplate t st1 @ [entry];
                  mediaPlaylistPath = resultPath this @ pathSuffix t @ playlistName this t
              in Inr ((set_mediaPlaylistTemplate t tpl st1)
                        \<lparr>playlistFiles := (playlistFiles st1)(mediaPlaylistPath \<mapsto> join [newline] tpl)\<rparr>)))"

section \<open>The segment pipeline and the cycle\<close>

text \<open>
  Lines 244 to 310: merge with the init payload, decrypt, commit. A rejection of the
  awaited merge leaves the method as it is; the structured error is raised on a falsy
  merge status and on a non-zero exit code.
\<close>

definition segment_error :: js_error where
  "segment_error = StructuredError CRITICAL SEGMENT SEGMENT_MANIPULATION_FAILED"

definition merge_decrypt_commit :: "environment \<Rightarrow> segment_saver \<Rightarrow> track \<Rightarrow> string \<Rightarrow> string \<Rightarrow> cycle_state \<Rightarrow> (js_error \<times> cycle_state) + cycle_state" where
  "merge_decrypt_commit env this t segmentName saveName st =
     (let inputPathList = [savePath this @ pathSuffix t @ initFile, saveName];
          mergeFileName = mergePath this @ pathSuffix t @ segmentName;
          st1 = (if mergeFiles_writes env inputPathList mergeFileName (files st)
                 then st\<lparr>files := mergeFileName # files st\<rparr> else st)
      in case mergeFiles_outcome env inputPathList mergeFileName (files st) of
           Rejected \<Rightarrow> Inl (MergeRejected, st1)
         | Resolved status \<Rightarrow>
             if status
             then (let nameOnly = path_basename segmentName (path_extname segmentName);
                       resultFileRelativePath = pathSuffix t @ nameOnly @ ''.mp4'';
                       decryptCommand = decryptScript this @ '' '' @ keyId this @ '' '' @
                         decryptKey this @ '' '' @ mergeFileName @ '' '' @ resultPath this @
                         resultFileRelativePath @ '' '' @ appRoot_path env @ '' '' @
                         butlast (pathSuffix t)
                   in if shell_exec_code env decryptCommand \<noteq> 0
                      then Inl (segment_error, st1)
                      else playlist_append env this t nameOnly
                             (st1\<lparr>files := (resultPath this @ resultFileRelativePath) # files st1\<rparr>))
             else Inl (segment_error, st1))"

text \<open>
  Lines 220 to 311: the body of the inner loop, for position \<open>i\<close> and one track. The
  assignments of lines 221 to 233 come first (\<open>assign_locals\<close>). Reading past the end of
  an array gives \<open>undefined\<close>, and \<open>segmentUrl.split\<close> then throws.
\<close>

definition track_uris :: "segment_saver \<Rightarrow> track \<Rightarrow> string list" where
  "track_uris this t =
     (case t of Audio \<Rightarrow> audioSegmentURIList this | Video \<Rightarrow> videoSegmentURIList this)"

definition track_durations :: "segment_saver \<Rightarrow> track \<Rightarrow> rat list" where
  "track_durations this t =
     (case t of Audio \<Rightarrow> audioSegmentDurationList this | Video \<Rightarrow> videoSegmentDurationList this)"

definition assign_locals :: "segment_saver \<Rightarrow> nat \<Rightarrow> track \<Rightarrow> cycle_state \<Rightarrow> cycle_state" where
  "assign_locals this i t st =
     (case t of
        Audio \<Rightarrow> st\<lparr>lastAudioURI := nth_opt (track_uris this t) i,
                     segmentDuration := nth_opt (track_durations this t) i\<rparr>
      | Video \<Rightarrow> st\<lparr>lastVideoURI := nth_opt (track_uris this t) i,
                     segmentDuration := nth_opt (track_durations this t) i\<rparr>)"

definition process_track :: "environment \<Rightarrow> segment_saver \<Rightarrow> nat \<Rightarrow> track \<Rightarrow> cycle_state \<Rightarrow> (js_error \<times> cycle_state) + cycle_state" where
  "process_track env this i t st =
     (let segmentUrl = nth_opt (track_uris this t) i;
          st1 = assign_locals this i t st
      in case segmentUrl of
           None \<Rightarrow> Inl (TypeError, st1)
         | Some url \<Rightarrow>
             (let segmentName = after_last (CHR ''/'') url;
                  saveName = savePath this @ pathSuffix t @ segmentName
              in if download_resolves env url saveName
                 then (let st2 = st1\<lparr>files := saveName # files st1\<rparr>
                       in if segmentName \<noteq> initFile
                          then merge_decrypt_commit env this t segmentName saveName st2
                          else Inr st2)
                 else Inl (DownloadRejected, st1)))"

text \<open>
  Lines 210 to 313: the two nested loops, as the list of their iterations
  \<open>(0, audio), (0, video), (1, audio), ...\<close>; an exception ends the run with the state
  reached.
\<close>

definition steps :: "nat \<Rightarrow> (nat \<times> track) list" where
  "steps n = concat (map (\<lambda>i. [(i, Audio), (i, Video)]) [0..<n])"

fun run_steps :: "environment \<Rightarrow> segment_saver \<Rightarrow> (nat \<times> track) list \<Rightarrow> cycle_state \<Rightarrow> (js_error \<times> cycle_state) + cycle_state" where
  "run_steps env this [] st = Inr st"
| "run_steps env this (s # rest) st =
     (case process_track env this (fst s) (snd s) st of
        Inl e \<Rightarrow> Inl e
      | Inr st' \<Rightarrow> run_steps env this rest st')"

text \<open>\<open>fse.emptyDirSync(dir)\<close>: every file under the directory is removed.\<close>

definition under_dir :: "string \<Rightarrow> string \<Rightarrow> bool" where
  "under_dir dir p = prefix (dir @ ''/'') p"

definition emptyDirSync :: "string \<Rightarrow> string list \<Rightarrow> string list" where
  "emptyDirSync dir fs = filter (\<lambda>p. \<not> under_dir dir p) fs"

text \<open>
  Lines 323 to 330: the time to sleep, if any, in JavaScript's arithmetic. The two
  readings of the clock, \<open>updateDuration\<close> and the duration are read as doubles. With
  \<open>segmentDuration\<close> undefined the product is \<open>NaN\<close>, and no comparison with \<open>NaN\<close> holds.
\<close>

definition sleepingDuration :: "rat \<Rightarrow> rat \<Rightarrow> rat \<Rightarrow> rat option \<Rightarrow> js_number option" where
  "sleepingDuration now checkStart updateDuration segDuration =
     (let processPeriod = js_sub (js_sub (round_double now) (round_double checkStart))
                            (round_double updateDuration);
          segmentDurationMiliSec =
            js_mul (case segDuration of None \<Rightarrow> NaN | Some d \<Rightarrow> round_double d) (Num 1000)
      in if js_lt processPeriod segmentDurationMiliSec
         then Some (js_sub segmentDurationMiliSec processPeriod)
         else None)"

definition start_state :: "world \<Rightarrow> cycle_state" where
  "start_state w =
     \<lparr>files = files w, playlistFiles = playlistFiles w,
      audioMediaPLTemplate = audioMediaPLTemplate w,
      videoMediaPLTemplate = videoMediaPLTemplate w,
      lastAudioURI = None, lastVideoURI = None, segmentDuration = None\<rparr>"

definition world_of :: "cycle_state \<Rightarrow> world" where
  "world_of st =
     \<lparr>files = files st, playlistFiles = playlistFiles st,
      audioMediaPLTemplate = audioMediaPLTemplate st,
      videoMediaPLTemplate = videoMediaPLTemplate st\<rparr>"

text \<open>
  What a cycle that completes gives back: the world it leaves, the continuity token it
  returns, and the time it asked to sleep before returning (if any).
\<close>

record cycle_result =
  final_world :: world
  returned :: continuity_token
  slept :: "js_number option"

text \<open>
  \<open>processSegments\<close> (lines 179 to 183), which runs \<open>processSegmentList\<close> (lines 185 to
  338) on the saver's own lists: the list parameters are the arrays that the alignment
  pops, so the loop runs over the aligned lists. An exception leaves the method at
  once, with the world as it is then.
\<close>

definition processSegments :: "environment \<Rightarrow> segment_saver \<Rightarrow> rat \<Rightarrow> world \<Rightarrow> (js_error \<times> world) + cycle_result" where
  "processSegments env this0 updateDuration w =
     (let this = alignTracks this0
      in case run_steps env this (steps (length (audioSegmentURIList this))) (start_state w) of
           Inl (e, st) \<Rightarrow> Inl (e, world_of st)
         | Inr st \<Rightarrow>
             (let fs = emptyDirSync (mergePath this @ ''video'')
                        (emptyDirSync (mergePath this @ ''audio'')
                          (emptyDirSync (savePath this @ ''video'')
                            (emptyDirSync (savePath this @ ''audio'') (files st))))
              in Inr \<lparr>final_world = world_of (st\<lparr>files := fs\<rparr>),
                      returned = \<lparr>audio = lastAudioURI st, video = lastVideoURI st\<rparr>,
                      slept = sleepingDuration (now_after_cleanup env) (now_before_loop env)
                                updateDuration (segmentDuration st)\<rparr>))"

section \<open>Names used in the statements\<close>

text \<open>
  The number of positions the loop visits (the length of the aligned lists); the
  iterations that come before the one of position \<open>i\<close> and track \<open>t\<close>; the values
  the loop body computes from a segment's URL for a track (\<open>saveName\<close>,
  \<open>mergeFileName\<close>, \<open>inputPathList\<close>, \<open>nameOnly\<close>, \<open>decryptCommand\<close>,
  \<open>mediaPlaylistPath\<close>, \<open>newSegmentUri\<close>); and what a run of
  \<open>processSegments\<close> shows from outside: the error it raised if any, the world it left,
  and the token it returned.
\<close>

definition aligned_length :: "segment_saver \<Rightarrow> nat" where
  "aligned_length this = length (audioSegmentURIList (alignTracks this))"

definition steps_before :: "nat \<Rightarrow> track \<Rightarrow> (nat \<times> track) list" where
  "steps_before i t = steps i @ (case t of Audio \<Rightarrow> [] | Video \<Rightarrow> [(i, Audio)])"

definition saveName_of :: "segment_saver \<Rightarrow> track \<Rightarrow> string \<Rightarrow> string" where
  "saveName_of this t url = savePath this @ pathSuffix t @ after_last (CHR ''/'') url"

definition mergeFileName_of :: "segment_saver \<Rightarrow> track \<Rightarrow> string \<Rightarrow> string" where
  "mergeFileName_of this t url = mergePath this @ pathSuffix t @ after_last (CHR ''/'') url"

definition inputPathList_of :: "segment_saver \<Rightarrow> track \<Rightarrow> string \<Rightarrow> string list" where
  "inputPathList_of this t url = [savePath this @ pathSuffix t @ initFile, saveName_of this t url]"

text \<open>
  The outcome of the merge of a segment when the files \<open>fs\<close> exist, and the files that
  exist after it.
\<close>

definition merge_outcome_of :: "environment \<Rightarrow> segment_saver \<Rightarrow> track \<Rightarrow> string \<Rightarrow> string list \<Rightarrow> merge_outcome" where
  "merge_outcome_of env this t url fs =
     mergeFiles_outcome env (inputPathList_of this t url) (mergeFileName_of this t url) fs"

definition merged_files :: "environment \<Rightarrow> segment_saver \<Rightarrow> track \<Rightarrow> string \<Rightarrow> string list \<Rightarrow> string list" where
  "merged_files env this t url fs =
     (if mergeFiles_writes env (inputPathList_of this t url) (mergeFileName_of this t url) fs
      then mergeFileName_of this t url # fs else fs)"

definition nameOnly_of :: "string \<Rightarrow> string" where
  "nameOnly_of url =
     path_basename (after_last (CHR ''/'') url) (path_extname (after_last (CHR ''/'') url))"

definition decryptCommand_of :: "environment \<Rightarrow> segment_saver \<Rightarrow> track \<Rightarrow> string \<Rightarrow> string" where
  "decryptCommand_of env this t url =
     decryptScript this @ '' '' @ keyId this @ '' '' @ decryptKey this @ '' '' @
     mergeFileName_of this t url @ '' '' @ resultPath this @ pathSuffix t @ nameOnly_of url @
     ''.mp4'' @ '' '' @ appRoot_path env @ '' '' @ butlast (pathSuffix t)"

definition mediaPlaylistPath_of :: "segment_saver \<Rightarrow> track \<Rightarrow> string" where
  "mediaPlaylistPath_of this t = resultPath this @ pathSuffix t @ playlistName this t"

definition newSegmentUri_of :: "string \<Rightarrow> string" where
  "newSegmentUri_of url = nameOnly_of url @ ''.mp4''"

text \<open>
  The media-sequence integer as lines 292 and 293 read it from an array element
  (\<open>None\<close> when the element holds no directive), the one of a playlist (read from its
  element 0), and the array as \<open>splice\<close> leaves it in the eviction branch, which is the
  array whose element 0 is then read.
\<close>

definition media_sequence_of :: "string \<Rightarrow> nat option" where
  "media_sequence_of item0 =
     (case regex_search item0 of
        None \<Rightarrow> None
      | Some (before, matched, rest) \<Rightarrow> parseInt (dropWhile (\<lambda>c. \<not> is_digit c) matched))"

definition media_sequence :: "string list \<Rightarrow> nat option" where
  "media_sequence tpl = (case tpl of [] \<Rightarrow> None | item0 # items \<Rightarrow> media_sequence_of item0)"

definition after_eviction :: "string list \<Rightarrow> string list" where
  "after_eviction tpl =
     (case segment_items tpl of [] \<Rightarrow> butlast tpl | oldItem # rest \<Rightarrow> remove1 oldItem tpl)"

text \<open>What a step of the pipeline shows: the error it raised, if any, and the state it left.\<close>

definition step_raised :: "(js_error \<times> cycle_state) + cycle_state \<Rightarrow> js_error option" where
  "step_raised res = (case res of Inl (e, st) \<Rightarrow> Some e | Inr st \<Rightarrow> None)"

definition state_after :: "(js_error \<times> cycle_state) + cycle_state \<Rightarrow> cycle_state" where
  "state_after res = (case res of Inl (e, st) \<Rightarrow> st | Inr st \<Rightarrow> st)"

definition raised :: "(js_error \<times> world) + cycle_result \<Rightarrow> js_error option" where
  "raised res = (case res of Inl (e, w) \<Rightarrow> Some e | Inr r \<Rightarrow> None)"

definition world_after :: "(js_error \<times> world) + cycle_result \<Rightarrow> world" where
  "world_after res = (case res of Inl (e, w) \<Rightarrow> w | Inr r \<Rightarrow> final_world r)"

definition token_of :: "(js_error \<times> world) + cycle_result \<Rightarrow> continuity_token option" where
  "token_of res = (case res of Inl (e, w) \<Rightarrow> None | Inr r \<Rightarrow> Some (returned r))"

section \<open>Example data\<close>

text \<open>
  A video index of three media references of six seconds each, an audio index of two,
  and a saver as the constructor sets it up before it fills the lists.
\<close>

definition example_ref :: "string \<Rightarrow> string \<Rightarrow> rat \<Rightarrow> segment_reference" where
  "example_ref dir name t =
     \<lparr>uri = ''http://cdn/'' @ dir @ ''/'' @ name, startTime = t, endTime = t + 6,
      initSegmentUri = ''http://cdn/'' @ dir @ ''/init.mp4''\<rparr>"

definition example_index :: segment_index where
  "example_index =
     \<lparr>references = [example_ref ''v'' ''1a.m4s'' 0, example_ref ''v'' ''1b.m4s'' 6,
                    example_ref ''v'' ''1c.m4s'' 12]\<rparr>"

definition example_audio_index :: segment_index where
  "example_audio_index =
     \<lparr>references = [example_ref ''a'' ''1a.m4s'' 0, example_ref ''a'' ''1b.m4s'' 6]\<rparr>"

definition example_this :: segment_saver where
  "example_this =
     \<lparr>audioSegmentURIList = [], audioSegmentDurationList = [],
      videoSegmentURIList = [], videoSegmentDurationList = [],
      maxSegmentNum = 3, audioPLName = ''audio.m3u8'', videoPLName = ''video.m3u8'',
      savePath = ''dl/'', mergePath = ''merge/'', resultPath = ''out/'',
      decryptKey = ''key'', keyId = ''kid'', decryptScript = ''./decrypt.sh''\<rparr>"

text \<open>The saver the constructor builds from the two example indexes.\<close>

definition example_saver :: "int \<Rightarrow> continuity_token \<Rightarrow> segment_saver" where
  "example_saver maxNum tok =
     new_segment_saver example_audio_index example_index ''key'' ''kid'' ''./decrypt.sh''
       ''out/'' ''dl/'' ''merge/'' maxNum ''audio.m3u8'' ''video.m3u8'' tok"

text \<open>
  Collaborators that succeed, with a cycle that takes 400 ms: the merge resolves to
  \<open>true\<close> when its input files exist and rejects otherwise, and leaves its output file
  either way. Playlists that hold one entry each, with media sequence 7. And two
  collaborators that fail on the audio segment \<open>1b\<close>: a decryption that exits with code
  1, and a merge that rejects.
\<close>

definition example_env :: environment where
  "example_env =
     \<lparr>download_resolves = (\<lambda>url saveName. True),
      mergeFiles_outcome = (\<lambda>inputPathList mergeFileName fs.
         if list_all (\<lambda>p. p \<in> set fs) inputPathList then Resolved True else Rejected),
      mergeFiles_writes = (\<lambda>inputPathList mergeFileName fs. True),
      shell_exec_code = (\<lambda>decryptCommand. 0),
      appRoot_path = ''/app'',
      number_text = (\<lambda>d. if d = 6 then ''6'' else ''0''),
      now_before_loop = 1000,
      now_after_cleanup = 1400\<rparr>"

definition example_header :: string where
  "example_header = ''#EXTM3U'' @ [newline] @ ''#EXT-X-MEDIA-SEQUENCE:7''"

definition example_world :: world where
  "example_world =
     \<lparr>files = [''out/audio/0f.mp4'', ''out/video/0f.mp4''],
      playlistFiles = Map.empty,
      audioMediaPLTemplate = [example_header, ''#EXTINF:6,'' @ [newline] @ ''0f.mp4''],
      videoMediaPLTemplate = [example_header, ''#EXTINF:6,'' @ [newline] @ ''0f.mp4'']\<rparr>"

definition failing_decrypt_env :: environment where
  "failing_decrypt_env =
     example_env\<lparr>shell_exec_code :=
       (\<lambda>decryptCommand.
          if decryptCommand =
             ''./decrypt.sh kid key merge/audio/1b.m4s out/audio/1b.mp4 /app audio''
          then 1 else 0)\<rparr>"

definition rejecting_merge_env :: environment where
  "rejecting_merge_env =
     example_env\<lparr>mergeFiles_outcome :=
       (\<lambda>inputPathList mergeFileName fs.
          if mergeFileName = ''merge/audio/1b.m4s'' then Rejected
          else mergeFiles_outcome example_env inputPathList mergeFileName fs)\<rparr>"

definition no_token :: continuity_token where
  "no_token = \<lparr>audio = None, video = None\<rparr>"

text \<open>
  States for an append: the example world with a segment duration of six seconds; the
  same with an audio playlist kept one line per element, so that the directive is in
  element 1; and the same with an audio playlist whose entry comes before its header.
  The saver \<open>window_of_one\<close> has a window of one entry.
\<close>

definition example_state :: cycle_state where
  "example_state = (start_state example_world)\<lparr>segmentDuration := Some 6\<rparr>"

definition line_playlist_state :: cycle_state where
  "line_playlist_state =
     example_state\<lparr>audioMediaPLTemplate :=
       [''#EXTM3U'', ''#EXT-X-MEDIA-SEQUENCE:7'', ''#EXTINF:6,'' @ [newline] @ ''0f.mp4'']\<rparr>"

definition entry_first_state :: cycle_state where
  "entry_first_state =
     example_state\<lparr>audioMediaPLTemplate :=
       [''#EXTINF:6,'' @ [newline] @ ''0f.mp4'', ''#EXT-X-MEDIA-SEQUENCE:7'']\<rparr>"

definition window_of_one :: segment_saver where
  "window_of_one = example_this\<lparr>maxSegmentNum := 1\<rparr>"

text \<open>
  An audio index whose one media segment has the file name \<open>init.mp4\<close> (in another
  directory than the init segment), and the saver the constructor builds from it.
\<close>

definition renamed_index :: segment_index where
  "renamed_index =
     \<lparr>references = [\<lparr>uri = ''http://cdn/a/x/init.mp4'', startTime = 0, endTime = 6,
                     initSegmentUri = ''http://cdn/a/init.mp4''\<rparr>]\<rparr>"

definition renamed_saver :: segment_saver where
  "renamed_saver =
     new_segment_saver renamed_index example_index ''key'' ''kid'' ''./decrypt.sh''
       ''out/'' ''dl/'' ''merge/'' 3 ''audio.m3u8'' ''video.m3u8'' no_token"

section \<open>Properties of the reconciliation\<close>

lemma scan_found:
  "foundLatestName s \<Longrightarrow>
   foldl (visit_reference l) s refs =
     s\<lparr>foundLatestName := True,
       segmentURIList := segmentURIList s @ map uri refs,
       segmentDurationList := segmentDurationList s @ map ref_duration refs,
       totalList := totalList s @ map uri refs,
       totalSegList := totalSegList s @ map ref_duration refs\<rparr>"
proof (induction refs arbitrary: s)
  case Nil
  then show ?case by simp
next
  case (Cons r refs)
  have step: "foundLatestName (visit_reference l s r)"
    using Cons.prems by (simp add: visit_reference_def Let_def)
  show ?case
    using Cons.prems
    by (simp add: Cons.IH [OF step]) (simp add: visit_reference_def Let_def ref_duration_def)
qed

lemma scan_not_found:
  "\<not> foundLatestName s \<Longrightarrow>
   foldl (visit_reference l) s refs =
     s\<lparr>foundLatestName := (l \<in> Some ` uri ` set refs),
       segmentURIList := segmentURIList s @ map uri (refs_after l refs),
       segmentDurationList := segmentDurationList s @ map ref_duration (refs_after l refs),
       totalList := totalList s @ map uri refs,
       totalSegList := totalSegList s @ map ref_duration refs\<rparr>"
proof (induction refs arbitrary: s)
  case Nil
  then show ?case by (simp add: refs_after_def)
next
  case (Cons r refs)
  show ?case
  proof (cases "Some (uri r) = l")
    case True
    have found: "foundLatestName (visit_reference l s r)"
      using True by (simp add: visit_reference_def Let_def)
    show ?thesis
      using Cons.prems True
      by (simp add: scan_found [OF found] refs_after_def)
         (auto simp add: visit_reference_def Let_def ref_duration_def)
  next
    case False
    have still: "\<not> foundLatestName (visit_reference l s r)"
      using False Cons.prems by (simp add: visit_reference_def Let_def)
    have after: "refs_after l (r # refs) = refs_after l refs"
      using False by (simp add: refs_after_def)
    show ?thesis
      using Cons.prems False
      by (simp add: Cons.IH [OF still] after)
         (auto simp add: visit_reference_def Let_def ref_duration_def)
  qed
qed

text \<open>
  The lists \<open>getSegmentInfoList_\<close> returns, in closed form: the init element, then the
  references after the last-processed one; when there are none of those, the trailing
  references of the index.
\<close>

lemma getSegmentInfoList_closed_form:
  "getSegmentInfoList this idx l =
     (case references idx of
        [] \<Rightarrow> ([], [])
      | ref0 # _ \<Rightarrow>
          (let new = (if refs_after l (references idx) = []
                      then drop (nat (max 0 (int (length (references idx)) - maxSegmentNum this))) (references idx)
                      else refs_after l (references idx))
           in (initSegmentUri ref0 # map uri new, 0 # map ref_duration new)))"
proof (cases "references idx")
  case Nil
  then show ?thesis by (simp add: getSegmentInfoList_def)
next
  case (Cons ref0 rest)
  show ?thesis
    by (simp add: getSegmentInfoList_def forEachTopLevelReference_def Cons
        scan_not_found Let_def drop_map [symmetric] del: foldl_Cons)
qed

lemma getSegmentInfoList_nonempty:
  "references idx \<noteq> [] \<Longrightarrow>
   getSegmentInfoList this idx l =
     (let new = (if refs_after l (references idx) = []
                 then drop (nat (max 0 (int (length (references idx)) - maxSegmentNum this))) (references idx)
                 else refs_after l (references idx))
      in (initSegmentUri (hd (references idx)) # map uri new, 0 # map ref_duration new))"
  by (cases "references idx") (simp_all add: getSegmentInfoList_closed_form)

lemma refs_after_absent:
  "l = None \<or> l \<notin> Some ` uri ` set refs \<Longrightarrow> refs_after l refs = []"
proof -
  assume "l = None \<or> l \<notin> Some ` uri ` set refs"
  then have "\<forall>r \<in> set refs. Some (uri r) \<noteq> l" by auto
  then have dw: "dropWhile (\<lambda>r. Some (uri r) \<noteq> l) refs = []" by simp
  show ?thesis unfolding refs_after_def dw by simp
qed

lemma drop_trailing:
  "drop (nat (max 0 (int (length xs) - m))) xs =
   drop (length xs - nat (min (int (length xs)) m)) xs"
proof (cases "m \<le> 0")
  case True
  then have "int (length xs) \<le> max 0 (int (length xs) - m)" by simp
  then have a: "length xs \<le> nat (max 0 (int (length xs) - m))" by linarith
  have b: "nat (min (int (length xs)) m) = 0" using True by simp
  show ?thesis using a by (simp only: b drop_all diff_zero order_refl)
next
  case False
  then have "nat (max 0 (int (length xs) - m)) = length xs - nat (min (int (length xs)) m)"
    by (simp add: max_def min_def) linarith
  then show ?thesis by simp
qed

lemma getSegmentInfoList_resumes:
  "refs_after l (references idx) \<noteq> [] \<Longrightarrow>
   getSegmentInfoList this idx l =
     (initSegmentUri (hd (references idx)) # map uri (refs_after l (references idx)),
      0 # map ref_duration (refs_after l (references idx)))"
proof -
  assume new: "refs_after l (references idx) \<noteq> []"
  then have "references idx \<noteq> []" by (auto simp add: refs_after_def)
  then show ?thesis using new by (simp add: getSegmentInfoList_nonempty Let_def)
qed

text \<open>
  With a window of at least one, the list of a track whose index has references holds
  at least one media element after the init element.
\<close>

lemma getSegmentInfoList_has_media:
  assumes "0 < maxSegmentNum this" and "references idx \<noteq> []"
  shows "2 \<le> length (fst (getSegmentInfoList this idx l))"
proof -
  have "nat (max 0 (int (length (references idx)) - maxSegmentNum this)) < length (references idx)"
    using assms by (cases "references idx") (auto simp add: max_def)
  then have "drop (nat (max 0 (int (length (references idx)) - maxSegmentNum this)))
      (references idx) \<noteq> []" by simp
  then show ?thesis
    using assms(2) by (auto simp add: getSegmentInfoList_nonempty Let_def Suc_le_eq)
qed

text \<open>
  Claim C1. When the last-processed URI is the URI of a reference of the index, the
  output should be the init element followed by exactly the references strictly after
  that one, so the init element alone when it is the final reference. The code decides
  the fallback by \<open>segmentURIList.length == 1\<close>, which also holds when the last-processed
  reference is the final one: on the index of three references, caught up with the
  third, it returns all three again (with \<open>maxSegmentNum_ = 3\<close>) instead of the init
  element alone. (\<open>getSegmentInfoList_resumes\<close> is the part of the claim that holds:
  when some reference follows the last-processed one, exactly those are returned.)
\<close>

theorem getSegmentInfoList_caught_up_returns_window:
  "getSegmentInfoList example_this example_index (Some ''http://cdn/v/1c.m4s'') =
     ([''http://cdn/v/init.mp4'', ''http://cdn/v/1a.m4s'', ''http://cdn/v/1b.m4s'',
       ''http://cdn/v/1c.m4s''], [0, 6, 6, 6])"
  by (simp add: getSegmentInfoList_closed_form example_index_def example_ref_def
      example_this_def refs_after_def ref_duration_def)

text \<open>
  Claim C2. An index without references gives empty lists (no init element). Otherwise
  the first element is the init segment's URI, with duration 0, and the two lists have
  the same length; and when the last-processed URI is null or is the URI of no
  reference, the remaining elements are the final \<open>min(n, maxSegmentNum)\<close> references
  of the index, so at most \<open>maxSegmentNum\<close> of them after the init element.
\<close>

theorem getSegmentInfoList_init_and_fallback:
  "(references idx = [] \<longrightarrow> getSegmentInfoList this idx l = ([], [])) \<and>
   (references idx \<noteq> [] \<longrightarrow>
      (\<exists>us ds. getSegmentInfoList this idx l = (initSegmentUri (hd (references idx)) # us, 0 # ds)
         \<and> length us = length ds) \<and>
      (l = None \<or> l \<notin> Some ` uri ` set (references idx) \<longrightarrow>
         getSegmentInfoList this idx l =
           (initSegmentUri (hd (references idx)) #
              map uri (drop (length (references idx) - nat (min (int (length (references idx))) (maxSegmentNum this)))
                        (references idx)),
            0 # map ref_duration
                  (drop (length (references idx) - nat (min (int (length (references idx))) (maxSegmentNum this)))
                        (references idx))) \<and>
         int (length (fst (getSegmentInfoList this idx l))) \<le> 1 + max 0 (maxSegmentNum this)))"
proof (intro conjI impI)
  assume "references idx = []"
  then show "getSegmentInfoList this idx l = ([], [])"
    by (simp add: getSegmentInfoList_closed_form)
next
  assume "references idx \<noteq> []"
  then show "\<exists>us ds. getSegmentInfoList this idx l = (initSegmentUri (hd (references idx)) # us, 0 # ds)
         \<and> length us = length ds"
    by (simp add: getSegmentInfoList_nonempty Let_def)
next
  assume ne: "references idx \<noteq> []" and ab: "l = None \<or> l \<notin> Some ` uri ` set (references idx)"
  show eq: "getSegmentInfoList this idx l =
           (initSegmentUri (hd (references idx)) #
              map uri (drop (length (references idx) - nat (min (int (length (references idx))) (maxSegmentNum this)))
                        (references idx)),
            0 # map ref_duration
                  (drop (length (references idx) - nat (min (int (length (references idx))) (maxSegmentNum this)))
                        (references idx)))"
    by (simp add: getSegmentInfoList_nonempty [OF ne] refs_after_absent [OF ab] Let_def
        drop_trailing)
  show "int (length (fst (getSegmentInfoList this idx l))) \<le> 1 + max 0 (maxSegmentNum this)"
    unfolding eq by (simp add: min_def max_def) 
qed

theorem getSegmentInfoList_init_and_fallback_witness:
  "references example_index \<noteq> [] \<and>
   getSegmentInfoList (example_this\<lparr>maxSegmentNum := 2\<rparr>) example_index None =
     ([''http://cdn/v/init.mp4'', ''http://cdn/v/1b.m4s'', ''http://cdn/v/1c.m4s''], [0, 6, 6]) \<and>
   getSegmentInfoList example_this \<lparr>references = []\<rparr> None = ([], [])"
  using getSegmentInfoList_init_and_fallback [of example_index "example_this\<lparr>maxSegmentNum := 2\<rparr>" None]
    getSegmentInfoList_init_and_fallback [of "\<lparr>references = []\<rparr>" example_this None]
  by (simp add: example_index_def example_ref_def example_this_def ref_duration_def)

section \<open>Properties of the alignment\<close>

lemma pop_n_take: "pop_n k xs = take (length xs - k) xs"
proof (induction k arbitrary: xs)
  case 0
  show ?case by simp
next
  case (Suc k)
  have "pop_n (Suc k) xs = take (length (butlast xs) - k) (butlast xs)"
    by (simp add: Suc.IH)
  also have "\<dots> = take (length xs - Suc k) xs"
    by (simp add: butlast_conv_take min_def)
  finally show ?case .
qed

lemma pop_longer:
  "length ys < length xs \<Longrightarrow>
   pop_n (nat \<bar>int (length ys) - int (length xs)\<bar>) xs = take (length ys) xs \<and>
   pop_n (nat \<bar>int (length xs) - int (length ys)\<bar>) xs = take (length ys) xs"
proof -
  assume less: "length ys < length xs"
  then have "nat \<bar>int (length ys) - int (length xs)\<bar> = length xs - length ys"
    and "nat \<bar>int (length xs) - int (length ys)\<bar> = length xs - length ys"
    by linarith+
  then show ?thesis using less by (simp add: pop_n_take)
qed

lemma alignTracks_lists:
  "audioSegmentURIList (alignTracks this) =
     take (min (length (audioSegmentURIList this)) (length (videoSegmentURIList this)))
       (audioSegmentURIList this) \<and>
   videoSegmentURIList (alignTracks this) =
     take (min (length (audioSegmentURIList this)) (length (videoSegmentURIList this)))
       (videoSegmentURIList this) \<and>
   length (audioSegmentURIList (alignTracks this)) =
     length (videoSegmentURIList (alignTracks this)) \<and>
   audioSegmentDurationList (alignTracks this) = audioSegmentDurationList this \<and>
   videoSegmentDurationList (alignTracks this) = videoSegmentDurationList this"
proof -
  consider (same) "length (audioSegmentURIList this) = length (videoSegmentURIList this)"
    | (video_longer) "length (audioSegmentURIList this) < length (videoSegmentURIList this)"
    | (audio_longer) "length (videoSegmentURIList this) < length (audioSegmentURIList this)"
    by linarith
  then show ?thesis
  proof cases
    case same
    then show ?thesis by (simp add: alignTracks_def)
  next
    case video_longer
    then show ?thesis
      using pop_longer [OF video_longer] by (simp add: alignTracks_def Let_def min_def)
  next
    case audio_longer
    then show ?thesis
      using pop_longer [OF audio_longer] by (simp add: alignTracks_def Let_def min_def)
  qed
qed

text \<open>
  Claim C6, as the code has it. After alignment the two URI lists have the same length,
  each the prefix of what it was, of the length of the shorter one: only the longer
  list loses elements, from its end. The duration lists are left as they were.
\<close>

theorem alignTracks_truncates_uri_lists:
  "audioSegmentURIList (alignTracks this) =
     take (min (length (audioSegmentURIList this)) (length (videoSegmentURIList this)))
       (audioSegmentURIList this) \<and>
   videoSegmentURIList (alignTracks this) =
     take (min (length (audioSegmentURIList this)) (length (videoSegmentURIList this)))
       (videoSegmentURIList this) \<and>
   length (audioSegmentURIList (alignTracks this)) =
     length (videoSegmentURIList (alignTracks this)) \<and>
   audioSegmentDurationList (alignTracks this) = audioSegmentDurationList this \<and>
   videoSegmentDurationList (alignTracks this) = videoSegmentDurationList this"
  by (rule alignTracks_lists)

lemma example_saver_lists:
  "example_saver 3 no_token =
     example_this\<lparr>
       audioSegmentURIList := [''http://cdn/a/init.mp4'', ''http://cdn/a/1a.m4s'', ''http://cdn/a/1b.m4s''],
       audioSegmentDurationList := [0, 6, 6],
       videoSegmentURIList := [''http://cdn/v/init.mp4'', ''http://cdn/v/1a.m4s'', ''http://cdn/v/1b.m4s'', ''http://cdn/v/1c.m4s''],
       videoSegmentDurationList := [0, 6, 6, 6]\<rparr>"
  by (simp add: example_saver_def no_token_def new_segment_saver_def getSegmentInfoList_closed_form
      example_index_def example_audio_index_def example_ref_def example_this_def
      refs_after_def ref_duration_def Let_def)

text \<open>
  Claim C6 as stated also says that the truncation keeps each duration list equal in
  length with its URI list. The saver built from an audio index of two references and a
  video index of three has lists of equal length per track; after alignment the video
  track has three URIs and still four durations.
\<close>

theorem alignTracks_leaves_durations:
  "length (videoSegmentURIList (example_saver 3 no_token)) =
     length (videoSegmentDurationList (example_saver 3 no_token)) \<and>
   videoSegmentURIList (alignTracks (example_saver 3 no_token)) =
     [''http://cdn/v/init.mp4'', ''http://cdn/v/1a.m4s'', ''http://cdn/v/1b.m4s''] \<and>
   videoSegmentDurationList (alignTracks (example_saver 3 no_token)) =
     [0, 6, 6, 6]"
  by (simp add: example_saver_lists alignTracks_def example_this_def)

section \<open>Properties of the numbers\<close>

lemma bit_length_pos: "0 < n \<Longrightarrow> 0 < bit_length n"
proof (induction n rule: bit_length.induct)
  case (1 n)
  have "0 \<le> bit_length (n div 2)"
  proof (cases "0 < n div 2")
    case True
    with 1 show ?thesis by simp
  next
    case False
    then show ?thesis by (simp add: bit_length.simps)
  qed
  with 1(2) show ?case by (subst bit_length.simps) simp
qed

lemma bit_length_bounds_int:
  "0 < n \<Longrightarrow> 2 ^ nat (bit_length n - 1) \<le> n \<and> n < 2 ^ nat (bit_length n)"
proof (induction n rule: bit_length.induct)
  case (1 n)
  have bl: "bit_length n = 1 + bit_length (n div 2)" using 1(2) by (subst bit_length.simps) simp
  show ?case
  proof (cases "0 < n div 2")
    case False
    with 1(2) have "n = 1" by presburger
    moreover have "bit_length 1 = 1" by (simp add: bit_length.simps)
    ultimately show ?thesis by simp
  next
    case True
    with 1 have ih: "2 ^ nat (bit_length (n div 2) - 1) \<le> n div 2"
      "n div 2 < 2 ^ nat (bit_length (n div 2))" by simp_all
    have p: "0 < bit_length (n div 2)" using True by (rule bit_length_pos)
    have e: "(2::int) ^ nat (bit_length (n div 2)) = 2 * 2 ^ nat (bit_length (n div 2) - 1)"
      using p by (metis Suc_nat_eq_nat_zadd1 add.commute diff_add_cancel power_Suc zle_diff1_eq)
    have "2 ^ nat (bit_length n - 1) \<le> n" using ih(1) by (simp add: bl e)
    moreover have "n < 2 ^ nat (bit_length n)"
    proof -
      have "n div 2 + 1 \<le> 2 ^ nat (bit_length (n div 2))" using ih(2) by simp
      then have "2 * (n div 2 + 1) \<le> 2 * 2 ^ nat (bit_length (n div 2))" by simp
      moreover have "n < 2 * (n div 2 + 1)" by presburger
      moreover have "(2::int) ^ nat (bit_length n) = 2 * 2 ^ nat (bit_length (n div 2))"
        using p by (simp add: bl nat_add_distrib)
      ultimately show ?thesis by simp
    qed
    ultimately show ?thesis by simp
  qed
qed

lemma bit_length_bounds:
  assumes "0 < n"
  shows "(2::rat) powi (bit_length n - 1) \<le> of_int n" and "of_int n < (2::rat) powi (bit_length n)"
proof -
  from bit_length_pos [OF assms] have p: "0 \<le> bit_length n - 1" "0 \<le> bit_length n" by simp_all
  from bit_length_bounds_int [OF assms]
  have "(of_int (2 ^ nat (bit_length n - 1)) :: rat) \<le> of_int n"
    and "(of_int n :: rat) < of_int (2 ^ nat (bit_length n))"
    by (simp_all only: of_int_le_iff of_int_less_iff)
  then show "(2::rat) powi (bit_length n - 1) \<le> of_int n" and "of_int n < (2::rat) powi (bit_length n)"
    using p by (simp_all add: power_int_def)
qed

lemma binary_exponent_bounds:
  assumes "0 < x"
  shows "2 powi (binary_exponent x) \<le> x" and "x < 2 powi (binary_exponent x + 1)"
proof -
  obtain p q where pq: "quotient_of x = (p, q)" by (cases "quotient_of x")
  then have q: "0 < q" by (rule quotient_of_denom_pos)
  have x: "x = of_int p / of_int q" using pq by (rule quotient_of_div)
  have p: "0 < p" using assms q by (simp add: x zero_less_divide_iff)
  let ?k = "bit_length p - bit_length q"
  have e: "binary_exponent x = (if 2 powi ?k \<le> x then ?k else ?k - 1)"
    by (simp add: binary_exponent_def pq Let_def)
  note bp = bit_length_bounds [OF p] and bq = bit_length_bounds [OF q]
  have q': "(0::rat) < of_int q" using q by simp
  have lo: "2 powi (?k - 1) \<le> x"
  proof -
    have "(2::rat) powi (?k - 1) = 2 powi (bit_length p - 1) / 2 powi (bit_length q)"
      by (simp add: power_int_diff)
    also have "\<dots> \<le> of_int p / 2 powi (bit_length q)"
      using bp(1) by (simp add: divide_right_mono)
    also have "\<dots> \<le> of_int p / of_int q"
      using bq(2) p q' by (intro divide_left_mono) (auto simp add: less_imp_le)
    finally show ?thesis by (simp add: x)
  qed
  have hi: "x < 2 powi (?k + 1)"
  proof -
    have "x = of_int p / of_int q" by (rule x)
    also have "\<dots> < 2 powi (bit_length p) / of_int q"
      using bp(2) q' by (simp add: divide_strict_right_mono)
    also have "\<dots> \<le> 2 powi (bit_length p) / 2 powi (bit_length q - 1)"
      using bq(1) q' by (intro divide_left_mono) auto
    also have "\<dots> = 2 powi (?k + 1)"
      by (simp add: power_int_diff power_int_add)
    finally show ?thesis .
  qed
  show "2 powi (binary_exponent x) \<le> x" using lo by (simp add: e)
  show "x < 2 powi (binary_exponent x + 1)" using hi by (auto simp add: e not_le)
qed

lemma round_half_even_nonneg: "0 \<le> y \<Longrightarrow> 0 \<le> round_half_even y"
  by (auto simp add: round_half_even_def Let_def)

lemma round_half_even_ge_1: "1 \<le> y \<Longrightarrow> 1 \<le> round_half_even y"
proof -
  assume "1 \<le> y"
  then have "1 \<le> \<lfloor>y\<rfloor>" by (simp add: le_floor_iff)
  then show ?thesis by (auto simp add: round_half_even_def Let_def)
qed

lemma round_half_even_of_int: "round_half_even (of_int j) = j"
  by (simp add: round_half_even_def Let_def)

lemma round_double_shape:
  "x \<noteq> 0 \<Longrightarrow>
   round_double x =
     (if 1023 < max (binary_exponent \<bar>x\<bar>) (- 1022) \<or>
         (max (binary_exponent \<bar>x\<bar>) (- 1022) = 1023 \<and>
          2 ^ 53 \<le> round_half_even (\<bar>x\<bar> * 2 powi (52 - max (binary_exponent \<bar>x\<bar>) (- 1022))))
      then (if 0 < x then PosInfinity else NegInfinity)
      else Num (sgn x * of_int (round_half_even
                  (\<bar>x\<bar> * 2 powi (52 - max (binary_exponent \<bar>x\<bar>) (- 1022))))
                * 2 powi (max (binary_exponent \<bar>x\<bar>) (- 1022) - 52)))"
  unfolding round_double_def Let_def by (simp only: if_False)

lemma quantum_pos: "(0::rat) < 2 powi (- 1074)"
  by (rule zero_less_power_int) simp

lemma round_double_on_grid: "on_grid (round_double x)"
proof (cases "x = 0")
  case True
  have "(0::rat) = of_int 0 * 2 powi (- 1074)" by (simp only: of_int_0 mult_zero_left)
  then have "\<exists>k::int. (0::rat) = of_int k * 2 powi (- 1074)" by blast
  moreover have "round_double x = Num 0" using True by (simp add: round_double_def)
  ultimately show ?thesis by (simp only: on_grid_def js_number.case)
next
  case False
  define e where "e = max (binary_exponent \<bar>x\<bar>) (- 1022)"
  define m where "m = round_half_even (\<bar>x\<bar> * 2 powi (52 - e))"
  have shape: "round_double x =
      (if 1023 < e \<or> (e = 1023 \<and> 2 ^ 53 \<le> m)
       then (if 0 < x then PosInfinity else NegInfinity)
       else Num (sgn x * of_int m * 2 powi (e - 52)))"
    unfolding m_def e_def using False by (rule round_double_shape)
  have e: "- 1022 \<le> e" by (simp add: e_def)
  have "(2::rat) powi (e - 52) = 2 powi ((e + 1022) + (- 1074))" by simp
  also have "\<dots> = 2 powi (e + 1022) * 2 powi (- 1074)"
    by (rule power_int_add) simp
  also have "(2::rat) powi (e + 1022) = of_int (2 ^ nat (e + 1022))"
    using e by (simp add: power_int_def)
  finally have g: "(2::rat) powi (e - 52) = of_int (2 ^ nat (e + 1022)) * 2 powi (- 1074)" .
  define q :: rat where "q = 2 powi (- 1074)"
  have "sgn x * of_int m * (of_int (2 ^ nat (e + 1022)) * q) =
      of_int ((if 0 < x then 1 else - 1) * m * 2 ^ nat (e + 1022)) * q"
    using False by (simp add: sgn_if)
  then have "sgn x * of_int m * 2 powi (e - 52) =
      of_int ((if 0 < x then 1 else - 1) * m * 2 ^ nat (e + 1022)) * 2 powi (- 1074)"
    unfolding g q_def .
  then have "\<exists>k::int. sgn x * of_int m * 2 powi (e - 52) = of_int k * 2 powi (- 1074)" by blast
  then show ?thesis
    unfolding shape on_grid_def by (simp only: js_number.case split: if_splits) simp
qed

lemma js_sub_on_grid: "on_grid (js_sub a b)"
  by (cases a; cases b) (simp_all only: js_sub.simps round_double_on_grid, simp_all only: on_grid_def js_number.case)

lemma js_mul_on_grid: "on_grid (js_mul a b)"
  by (cases a; cases b) (simp_all only: js_mul.simps round_double_on_grid, simp_all only: on_grid_def js_number.case split: if_splits, simp_all)

lemma round_double_not_positive: "x \<le> 0 \<Longrightarrow> \<not> js_lt (Num 0) (round_double x)"
proof (cases "x = 0")
  case True
  then show ?thesis by (simp add: round_double_def)
next
  case False
  assume "x \<le> 0"
  with False have x: "x < 0" by simp
  define e where "e = max (binary_exponent \<bar>x\<bar>) (- 1022)"
  define m where "m = round_half_even (\<bar>x\<bar> * 2 powi (52 - e))"
  have shape: "round_double x =
      (if 1023 < e \<or> (e = 1023 \<and> 2 ^ 53 \<le> m)
       then (if 0 < x then PosInfinity else NegInfinity)
       else Num (sgn x * of_int m * 2 powi (e - 52)))"
    unfolding m_def e_def using False by (rule round_double_shape)
  have "0 \<le> \<bar>x\<bar> * 2 powi (52 - e)" by simp
  then have m: "0 \<le> m" unfolding m_def by (rule round_half_even_nonneg)
  have p: "(0::rat) < 2 powi (e - 52)" by (rule zero_less_power_int) simp
  have "sgn x * of_int m * 2 powi (e - 52) \<le> 0"
    using x m p by (simp add: mult_le_0_iff zero_le_mult_iff)
  then show ?thesis
    unfolding shape using x by (simp add: not_less)
qed

lemma round_double_positive:
  assumes "2 powi (- 1074) \<le> x"
  shows "js_lt (Num 0) (round_double x)"
proof -
  from quantum_pos assms have x: "0 < x" by (rule less_le_trans)
  then have ax: "\<bar>x\<bar> = x" and nz: "x \<noteq> 0" by simp_all
  define e where "e = max (binary_exponent \<bar>x\<bar>) (- 1022)"
  define m where "m = round_half_even (\<bar>x\<bar> * 2 powi (52 - e))"
  have shape: "round_double x =
      (if 1023 < e \<or> (e = 1023 \<and> 2 ^ 53 \<le> m)
       then (if 0 < x then PosInfinity else NegInfinity)
       else Num (sgn x * of_int m * 2 powi (e - 52)))"
    unfolding m_def e_def using nz by (rule round_double_shape)
  have "1 \<le> x * 2 powi (52 - e)"
  proof (cases "- 1022 \<le> binary_exponent x")
    case True
    then have e: "e = binary_exponent x" by (simp add: e_def ax)
    have "(1::rat) \<le> 2 powi 52" by simp
    also have "(2::rat) powi 52 = 2 powi (e + (52 - e))" by simp
    also have "\<dots> = 2 powi e * 2 powi (52 - e)" by (rule power_int_add) simp
    also have "\<dots> \<le> x * 2 powi (52 - e)"
      using binary_exponent_bounds(1) [OF x] by (simp add: e)
    finally show ?thesis .
  next
    case False
    then have e: "e = - 1022" by (simp add: e_def ax)
    have "(1::rat) = 2 powi ((- 1074) + 1074)" by simp
    also have "\<dots> = 2 powi (- 1074) * 2 powi 1074" by (rule power_int_add) simp
    also have "\<dots> \<le> x * 2 powi 1074"
      using assms by (rule mult_right_mono) simp
    finally show ?thesis by (simp add: e)
  qed
  then have m: "1 \<le> m" unfolding m_def ax by (rule round_half_even_ge_1)
  have p: "(0::rat) < 2 powi (e - 52)" by (rule zero_less_power_int) simp
  have "0 < sgn x * of_int m * 2 powi (e - 52)"
    using x m p by (simp add: zero_less_mult_iff)
  then show ?thesis
    unfolding shape using x by simp
qed

lemma slack_positive_iff:
  assumes "on_grid a" and "on_grid b"
  shows "js_lt (Num 0) (js_sub b a) = js_lt a b"
proof (cases a; cases b)
  fix u v
  assume a: "a = Num u" and b: "b = Num v"
  from assms obtain j k :: int where u: "u = of_int j * 2 powi (- 1074)"
    and v: "v = of_int k * 2 powi (- 1074)"
    by (auto simp add: on_grid_def a b)
  show ?thesis
  proof (cases "u < v")
    case True
    then have "j < k" unfolding u v using quantum_pos by (simp only: mult_less_cancel_right_pos of_int_less_iff)
    then have "1 \<le> k - j" by simp
    then have "(1::rat) \<le> of_int (k - j)" by (simp only: of_int_1_le_iff)
    from mult_right_mono [OF this less_imp_le [OF quantum_pos]]
    have "1 * 2 powi (- 1074) \<le> (of_int (k - j) :: rat) * 2 powi (- 1074)" .
    also have "(of_int (k - j) :: rat) * 2 powi (- 1074) = v - u"
      unfolding u v by (simp only: of_int_diff left_diff_distrib)
    finally have "2 powi (- 1074) \<le> v - u" by (simp only: mult_1)
    from round_double_positive [OF this] True show ?thesis by (simp add: a b)
  next
    case False
    then have "v - u \<le> 0" by simp
    from round_double_not_positive [OF this] False show ?thesis by (simp add: a b)
  qed
qed simp_all

lemma round_double_of_int:
  assumes "\<bar>k\<bar> < 2 ^ 53"
  shows "round_double (of_int k) = Num (of_int k)"
proof (cases "k = 0")
  case True
  then show ?thesis by (simp add: round_double_def)
next
  case False
  define x :: rat where "x = of_int k"
  have nz: "x \<noteq> 0" using False by (simp add: x_def)
  have ax: "\<bar>x\<bar> = of_int \<bar>k\<bar>" by (simp add: x_def)
  have pos: "0 < \<bar>x\<bar>" using nz by simp
  have "1 \<le> \<bar>k\<bar>" using False by simp
  then have one: "1 \<le> \<bar>x\<bar>" by (simp only: ax of_int_1_le_iff)
  define e where "e = max (binary_exponent \<bar>x\<bar>) (- 1022)"
  define m where "m = round_half_even (\<bar>x\<bar> * 2 powi (52 - e))"
  have shape: "round_double x =
      (if 1023 < e \<or> (e = 1023 \<and> 2 ^ 53 \<le> m)
       then (if 0 < x then PosInfinity else NegInfinity)
       else Num (sgn x * of_int m * 2 powi (e - 52)))"
    unfolding m_def e_def using nz by (rule round_double_shape)
  have e0: "0 \<le> binary_exponent \<bar>x\<bar>"
  proof (rule ccontr)
    assume "\<not> 0 \<le> binary_exponent \<bar>x\<bar>"
    then have "binary_exponent \<bar>x\<bar> + 1 \<le> 0" by simp
    then have "(2::rat) powi (binary_exponent \<bar>x\<bar> + 1) \<le> 2 powi 0"
      by (intro power_int_increasing) simp_all
    with binary_exponent_bounds(2) [OF pos] one show False by simp
  qed
  have e52: "binary_exponent \<bar>x\<bar> \<le> 52"
  proof (rule ccontr)
    assume "\<not> binary_exponent \<bar>x\<bar> \<le> 52"
    then have "53 \<le> binary_exponent \<bar>x\<bar>" by simp
    then have "(2::rat) powi 53 \<le> 2 powi (binary_exponent \<bar>x\<bar>)"
      by (intro power_int_increasing) simp_all
    also have "\<dots> \<le> \<bar>x\<bar>" by (rule binary_exponent_bounds(1) [OF pos])
    also have "\<dots> < of_int (2 ^ 53)" unfolding ax using assms by (simp only: of_int_less_iff)
    finally show False by simp
  qed
  have e: "0 \<le> e" "e \<le> 52" using e0 e52 by (simp_all add: e_def)
  have p: "(2::rat) powi (52 - e) = of_int (2 ^ nat (52 - e))"
    using e by (simp add: power_int_def)
  have m: "m = \<bar>k\<bar> * 2 ^ nat (52 - e)"
    unfolding m_def ax p by (simp only: of_int_mult [symmetric] round_half_even_of_int)
  have "(2::rat) powi (52 - e) * 2 powi (e - 52) = 2 powi ((52 - e) + (e - 52))"
    by (rule power_int_add [symmetric]) simp
  then have c: "(2::rat) powi (52 - e) * 2 powi (e - 52) = 1" by simp
  have "sgn x * of_int m * 2 powi (e - 52) = sgn x * \<bar>x\<bar> * (2 powi (52 - e) * 2 powi (e - 52))"
    unfolding m ax p by (simp only: of_int_mult mult.assoc)
  also have "\<dots> = x" unfolding c by (simp add: sgn_mult_abs)
  finally have v: "sgn x * of_int m * 2 powi (e - 52) = x" .
  show ?thesis
    using shape e v by (simp add: x_def [symmetric])
qed

section \<open>Properties of the pipeline and the cycle\<close>

lemma set_template_fields [simp]:
  "files (set_mediaPlaylistTemplate t tpl st) = files st"
  "playlistFiles (set_mediaPlaylistTemplate t tpl st) = playlistFiles st"
  "lastAudioURI (set_mediaPlaylistTemplate t tpl st) = lastAudioURI st"
  "lastVideoURI (set_mediaPlaylistTemplate t tpl st) = lastVideoURI st"
  "segmentDuration (set_mediaPlaylistTemplate t tpl st) = segmentDuration st"
  by (cases t; simp add: set_mediaPlaylistTemplate_def)+

lemma template_of_set [simp]:
  "mediaPlaylistTemplate t' (set_mediaPlaylistTemplate t tpl st) =
     (if t' = t then tpl else mediaPlaylistTemplate t' st)"
  by (cases t; cases t'; simp add: set_mediaPlaylistTemplate_def mediaPlaylistTemplate_def)

lemma template_of_update [simp]:
  "mediaPlaylistTemplate t (st\<lparr>files := fs\<rparr>) = mediaPlaylistTemplate t st"
  "mediaPlaylistTemplate t (st\<lparr>playlistFiles := pf\<rparr>) = mediaPlaylistTemplate t st"
  "mediaPlaylistTemplate t (st\<lparr>lastAudioURI := u\<rparr>) = mediaPlaylistTemplate t st"
  "mediaPlaylistTemplate t (st\<lparr>lastVideoURI := u\<rparr>) = mediaPlaylistTemplate t st"
  "mediaPlaylistTemplate t (st\<lparr>segmentDuration := d\<rparr>) = mediaPlaylistTemplate t st"
  by (cases t; simp add: mediaPlaylistTemplate_def)+

lemma evict_oldest_frame:
  "evict_oldest this t st = Inr st' \<Longrightarrow>
   lastAudioURI st' = lastAudioURI st \<and> lastVideoURI st' = lastVideoURI st \<and>
   segmentDuration st' = segmentDuration st \<and> playlistFiles st' = playlistFiles st \<and>
   (\<forall>t'. t' \<noteq> t \<longrightarrow> mediaPlaylistTemplate t' st' = mediaPlaylistTemplate t' st)"
  by (auto simp add: evict_oldest_def Let_def split: list.splits if_splits option.splits)

lemma playlist_append_frame:
  "playlist_append env this t nameOnly st = Inr st' \<Longrightarrow>
   lastAudioURI st' = lastAudioURI st \<and> lastVideoURI st' = lastVideoURI st \<and>
   segmentDuration st' = segmentDuration st \<and>
   (\<forall>t'. t' \<noteq> t \<longrightarrow> mediaPlaylistTemplate t' st' = mediaPlaylistTemplate t' st)"
  by (auto simp add: playlist_append_def Let_def split: sum.splits if_splits
      dest!: evict_oldest_frame)

lemma playlist_append_last:
  "playlist_append env this t nameOnly st = Inr st' \<Longrightarrow>
   mediaPlaylistTemplate t st' \<noteq> [] \<and>
   last (mediaPlaylistTemplate t st') =
     segmentTemplate env (segmentDuration st) (nameOnly @ ''.mp4'') \<and>
   playlistFiles st' (resultPath this @ pathSuffix t @ playlistName this t) =
     Some (join [newline] (mediaPlaylistTemplate t st'))"
  by (auto simp add: playlist_append_def Let_def split: sum.splits if_splits
      dest!: evict_oldest_frame)


lemma merge_decrypt_commit_frame:
  "merge_decrypt_commit env this t segmentName saveName st = Inr st' \<Longrightarrow>
   lastAudioURI st' = lastAudioURI st \<and> lastVideoURI st' = lastVideoURI st \<and>
   segmentDuration st' = segmentDuration st \<and>
   (\<forall>t'. t' \<noteq> t \<longrightarrow> mediaPlaylistTemplate t' st' = mediaPlaylistTemplate t' st)"
  by (auto simp add: merge_decrypt_commit_def Let_def split: if_splits merge_outcome.splits
      dest!: playlist_append_frame)

lemma merge_decrypt_commit_done:
  "merge_decrypt_commit env this t segmentName saveName st = Inr st' \<Longrightarrow>
   mediaPlaylistTemplate t st' \<noteq> [] \<and>
   last (mediaPlaylistTemplate t st') =
     segmentTemplate env (segmentDuration st)
       (path_basename segmentName (path_extname segmentName) @ ''.mp4'') \<and>
   playlistFiles st' (resultPath this @ pathSuffix t @ playlistName this t) =
     Some (join [newline] (mediaPlaylistTemplate t st'))"
  by (auto simp add: merge_decrypt_commit_def Let_def split: if_splits merge_outcome.splits
      dest!: playlist_append_last)

lemma process_track_locals:
  "process_track env this i t st = Inr st' \<Longrightarrow>
   segmentDuration st' = nth_opt (track_durations this t) i \<and>
   (case t of
      Audio \<Rightarrow> lastAudioURI st' = nth_opt (track_uris this t) i \<and> lastVideoURI st' = lastVideoURI st
    | Video \<Rightarrow> lastVideoURI st' = nth_opt (track_uris this t) i \<and> lastAudioURI st' = lastAudioURI st) \<and>
   (\<forall>t'. t' \<noteq> t \<longrightarrow> mediaPlaylistTemplate t' st' = mediaPlaylistTemplate t' st)"
  by (cases t)
     (auto simp add: process_track_def assign_locals_def track_uris_def track_durations_def Let_def
       split: option.splits if_splits dest!: merge_decrypt_commit_frame)

lemma run_steps_append:
  "run_steps env this (xs @ ys) st =
     (case run_steps env this xs st of Inl e \<Rightarrow> Inl e | Inr st' \<Rightarrow> run_steps env this ys st')"
  by (induction xs arbitrary: st) (auto split: sum.splits)

lemma steps_Suc: "steps (Suc n) = steps n @ [(n, Audio), (n, Video)]"
  by (simp add: steps_def)

lemma run_steps_last:
  assumes "run_steps env this (steps (Suc n)) st0 = Inr st"
  shows "\<exists>st1 st2. run_steps env this (steps n) st0 = Inr st1 \<and>
           process_track env this n Audio st1 = Inr st2 \<and>
           process_track env this n Video st2 = Inr st"
  using assms by (auto simp add: steps_Suc run_steps_append split: sum.splits)

lemma run_steps_locals:
  assumes "run_steps env this (steps n) st0 = Inr st" and "0 < n"
  shows "lastAudioURI st = nth_opt (audioSegmentURIList this) (n - 1) \<and>
         lastVideoURI st = nth_opt (videoSegmentURIList this) (n - 1) \<and>
         segmentDuration st = nth_opt (videoSegmentDurationList this) (n - 1)"
proof -
  obtain k where n: "n = Suc k" using \<open>0 < n\<close> by (cases n) auto
  from run_steps_last [of env this k st0 st] assms n
  obtain st1 st2 where a: "process_track env this k Audio st1 = Inr st2"
    and v: "process_track env this k Video st2 = Inr st" by auto
  from process_track_locals [OF a] process_track_locals [OF v]
  show ?thesis by (simp add: n track_uris_def track_durations_def)
qed

lemma process_track_commit:
  assumes "process_track env this i t st = Inr st'"
    and "nth_opt (track_uris this t) i = Some url"
    and "after_last (CHR ''/'') url \<noteq> initFile"
  shows "mediaPlaylistTemplate t st' \<noteq> [] \<and>
     last (mediaPlaylistTemplate t st') =
       segmentTemplate env (nth_opt (track_durations this t) i)
         (path_basename (after_last (CHR ''/'') url) (path_extname (after_last (CHR ''/'') url)) @ ''.mp4'') \<and>
     playlistFiles st' (resultPath this @ pathSuffix t @ playlistName this t) =
       Some (join [newline] (mediaPlaylistTemplate t st'))"
  using assms
  by (cases t)
     (auto simp add: process_track_def assign_locals_def Let_def split: if_splits dest!: merge_decrypt_commit_done)

lemma world_of_fields [simp]:
  "files (world_of st) = files st"
  "playlistFiles (world_of st) = playlistFiles st"
  "audioMediaPLTemplate (world_of st) = audioMediaPLTemplate st"
  "videoMediaPLTemplate (world_of st) = videoMediaPLTemplate st"
  by (simp_all add: world_of_def)

lemma processSegments_completes:
  assumes "processSegments env this updateDuration w = Inr r"
  shows "\<exists>st. run_steps env (alignTracks this)
             (steps (length (audioSegmentURIList (alignTracks this)))) (start_state w) = Inr st \<and>
           returned r = \<lparr>audio = lastAudioURI st, video = lastVideoURI st\<rparr> \<and>
           slept r = sleepingDuration (now_after_cleanup env) (now_before_loop env)
                       updateDuration (segmentDuration st) \<and>
           audioMediaPLTemplate (final_world r) = audioMediaPLTemplate st \<and>
           videoMediaPLTemplate (final_world r) = videoMediaPLTemplate st \<and>
           playlistFiles (final_world r) = playlistFiles st \<and>
           files (final_world r) =
             emptyDirSync (mergePath this @ ''video'')
               (emptyDirSync (mergePath this @ ''audio'')
                 (emptyDirSync (savePath this @ ''video'')
                   (emptyDirSync (savePath this @ ''audio'') (files st))))"
  using assms
  by (auto simp add: processSegments_def Let_def alignTracks_def split: sum.splits prod.splits if_splits)

lemma aligned_length_min:
  "aligned_length this = min (length (audioSegmentURIList this)) (length (videoSegmentURIList this))"
  using alignTracks_lists [of this] by (simp add: aligned_length_def)

lemma aligned_lists:
  "audioSegmentURIList (alignTracks this) = take (aligned_length this) (audioSegmentURIList this)"
  "videoSegmentURIList (alignTracks this) = take (aligned_length this) (videoSegmentURIList this)"
  "audioSegmentDurationList (alignTracks this) = audioSegmentDurationList this"
  "videoSegmentDurationList (alignTracks this) = videoSegmentDurationList this"
  using alignTracks_lists [of this] by (simp_all add: aligned_length_min)

lemma nth_opt_aligned:
  "0 < aligned_length this \<Longrightarrow>
   nth_opt (audioSegmentURIList (alignTracks this)) (aligned_length this - 1) =
     Some (audioSegmentURIList this ! (aligned_length this - 1)) \<and>
   nth_opt (videoSegmentURIList (alignTracks this)) (aligned_length this - 1) =
     Some (videoSegmentURIList this ! (aligned_length this - 1))"
proof -
  assume pos: "0 < aligned_length this"
  have "aligned_length this \<le> length (audioSegmentURIList this)"
    and "aligned_length this \<le> length (videoSegmentURIList this)"
    by (simp_all add: aligned_length_min)
  with pos show ?thesis by (simp add: aligned_lists nth_opt_def)
qed

lemma sleepingDuration_whole_numbers:
  assumes "\<bar>N\<bar> < 2 ^ 53" and "\<bar>S\<bar> < 2 ^ 53" and "\<bar>U\<bar> < 2 ^ 53" and "\<bar>D\<bar> < 2 ^ 53"
    and "\<bar>N - S\<bar> < 2 ^ 53" and "\<bar>N - S - U\<bar> < 2 ^ 53" and "\<bar>D - (N - S - U)\<bar> < 2 ^ 53"
    and "round_double d = Num d" and "d * 1000 = of_int D"
  shows "sleepingDuration (of_int N) (of_int S) (of_int U) (Some d) =
     (if 0 < D - (N - S - U) then Some (Num (of_int (D - (N - S - U)))) else None)"
proof -
  have elapsed: "js_sub (round_double (of_int N)) (round_double (of_int S)) = Num (of_int (N - S))"
    using round_double_of_int [OF assms(1)] round_double_of_int [OF assms(2)]
      round_double_of_int [OF assms(5)]
    by (simp flip: of_int_diff)
  have period: "js_sub (Num (of_int (N - S))) (round_double (of_int U)) = Num (of_int (N - S - U))"
    using round_double_of_int [OF assms(3)] round_double_of_int [OF assms(6)]
    by (simp flip: of_int_diff)
  have millis: "js_mul (round_double d) (Num 1000) = Num (of_int D)"
    using round_double_of_int [OF assms(4)] by (simp add: assms(8,9))
  have slack: "js_sub (Num (of_int D)) (Num (of_int (N - S - U))) = Num (of_int (D - (N - S - U)))"
    using round_double_of_int [OF assms(7)] by (simp flip: of_int_diff)
  have less: "js_lt (Num (of_int (N - S - U))) (Num (of_int D)) = (0 < D - (N - S - U))"
    by auto
  show ?thesis
    unfolding sleepingDuration_def Let_def option.case elapsed period millis slack less ..
qed

text \<open>
  Claim C8. A cycle that completes, after at least one position, asks to sleep for
  \<open>slack = segmentDuration * 1000 - (elapsed - updateDuration)\<close> milliseconds when that
  is positive, and does not sleep otherwise; \<open>elapsed\<close> is the time between the two
  readings of the clock and \<open>segmentDuration\<close> the duration last assigned in the loop,
  that of the video segment at the last position. The operations are JavaScript's, each
  giving the nearest double; on whole numbers of milliseconds below \<open>2^53\<close> they are
  exact (\<open>sleepingDuration_whole_numbers\<close>). (How long the timer then takes is outside
  the model.)
\<close>

theorem cycle_sleeps_for_slack:
  assumes "processSegments env this updateDuration w = Inr r"
    and "0 < aligned_length this"
    and "aligned_length this \<le> length (videoSegmentDurationList this)"
  shows "slept r =
     (let elapsed = js_sub (round_double (now_after_cleanup env)) (round_double (now_before_loop env));
          slack = js_sub
                    (js_mul (round_double (videoSegmentDurationList this ! (aligned_length this - 1)))
                       (Num 1000))
                    (js_sub elapsed (round_double updateDuration))
      in if js_lt (Num 0) slack then Some slack else None)"
proof -
  from processSegments_completes [OF assms(1)]
  obtain st where run: "run_steps env (alignTracks this)
        (steps (aligned_length this)) (start_state w) = Inr st"
    and sl: "slept r = sleepingDuration (now_after_cleanup env) (now_before_loop env)
                       updateDuration (segmentDuration st)"
    by (auto simp add: aligned_length_def)
  from run_steps_locals [OF run assms(2)]
  have "segmentDuration st = nth_opt (videoSegmentDurationList this) (aligned_length this - 1)"
    by (simp add: aligned_lists)
  then have "segmentDuration st = Some (videoSegmentDurationList this ! (aligned_length this - 1))"
    using assms(2,3) by (simp add: nth_opt_def)
  then show ?thesis
    by (simp add: sl sleepingDuration_def Let_def
        slack_positive_iff [OF js_sub_on_grid js_mul_on_grid])
qed

theorem cycle_sleeps_for_slack_witness:
  "\<exists>r. processSegments example_env (example_saver 2 no_token) 2000 example_world = Inr r \<and>
       aligned_length (example_saver 2 no_token) = 3 \<and>
       slept r = Some (Num 7600)"
proof -
  have "raised (processSegments example_env (example_saver 2 no_token) 2000 example_world) = None"
    by code_simp
  then obtain r where r: "processSegments example_env (example_saver 2 no_token) 2000 example_world = Inr r"
    by (cases "processSegments example_env (example_saver 2 no_token) 2000 example_world")
       (auto simp add: raised_def)
  have n: "aligned_length (example_saver 2 no_token) = 3" by code_simp
  have d: "videoSegmentDurationList (example_saver 2 no_token) = [0, 6, 6]" by code_simp
  have a: "js_sub (js_mul (round_double 6) (Num 1000))
             (js_sub (js_sub (round_double 1400) (round_double 1000)) (round_double 2000)) =
           Num 7600"
    by code_simp
  from cycle_sleeps_for_slack [OF r] n d
  have "slept r = Some (Num 7600)" by (simp add: example_env_def a)
  with r n show ?thesis by simp
qed

text \<open>
  Claim C7, as the code has it. The token a completed cycle returns holds, per track,
  the URI at the last position of the aligned list, and \<open>null\<close> when the aligned lists
  are empty: the loop stores the URI of every position, the init segment's too, before
  it fetches it. When the file name of that URI is not \<open>init.mp4\<close> the segment was
  committed, and its entry is the last element of the track's playlist.
\<close>

theorem returned_token_is_last_position:
  assumes "processSegments env this updateDuration w = Inr r"
  shows "returned r =
     \<lparr>audio = (if aligned_length this = 0 then None
               else Some (audioSegmentURIList this ! (aligned_length this - 1))),
      video = (if aligned_length this = 0 then None
               else Some (videoSegmentURIList this ! (aligned_length this - 1)))\<rparr> \<and>
     (0 < aligned_length this \<and>
      after_last (CHR ''/'') (audioSegmentURIList this ! (aligned_length this - 1)) \<noteq> initFile \<longrightarrow>
        audioMediaPLTemplate (final_world r) \<noteq> [] \<and>
        last (audioMediaPLTemplate (final_world r)) =
          segmentTemplate env (nth_opt (audioSegmentDurationList this) (aligned_length this - 1))
            (newSegmentUri_of (audioSegmentURIList this ! (aligned_length this - 1)))) \<and>
     (0 < aligned_length this \<and>
      after_last (CHR ''/'') (videoSegmentURIList this ! (aligned_length this - 1)) \<noteq> initFile \<longrightarrow>
        videoMediaPLTemplate (final_world r) \<noteq> [] \<and>
        last (videoMediaPLTemplate (final_world r)) =
          segmentTemplate env (nth_opt (videoSegmentDurationList this) (aligned_length this - 1))
            (newSegmentUri_of (videoSegmentURIList this ! (aligned_length this - 1))))"
proof -
  from processSegments_completes [OF assms]
  obtain st where run: "run_steps env (alignTracks this)
        (steps (aligned_length this)) (start_state w) = Inr st"
    and ret: "returned r = \<lparr>audio = lastAudioURI st, video = lastVideoURI st\<rparr>"
    and tpl: "audioMediaPLTemplate (final_world r) = audioMediaPLTemplate st"
             "videoMediaPLTemplate (final_world r) = videoMediaPLTemplate st"
    by (auto simp add: aligned_length_def)
  show ?thesis
  proof (cases "aligned_length this")
    case 0
    with run have "st = start_state w" by (simp add: steps_def)
    then show ?thesis using 0 ret by (simp add: start_state_def)
  next
    case (Suc k)
    then have pos: "0 < aligned_length this" by simp
    from run_steps_locals [OF run pos] nth_opt_aligned [OF pos]
    have token: "lastAudioURI st = Some (audioSegmentURIList this ! (aligned_length this - 1))"
      "lastVideoURI st = Some (videoSegmentURIList this ! (aligned_length this - 1))"
      by simp_all
    from run_steps_last [of env "alignTracks this" k "start_state w" st] run Suc
    obtain st1 st2 where a: "process_track env (alignTracks this) k Audio st1 = Inr st2"
      and v: "process_track env (alignTracks this) k Video st2 = Inr st" by auto
    have k: "k = aligned_length this - 1" using Suc by simp
    have ua: "nth_opt (track_uris (alignTracks this) Audio) k =
        Some (audioSegmentURIList this ! (aligned_length this - 1))"
      and uv: "nth_opt (track_uris (alignTracks this) Video) k =
        Some (videoSegmentURIList this ! (aligned_length this - 1))"
      using nth_opt_aligned [OF pos] by (simp_all add: track_uris_def k)
    have keep: "audioMediaPLTemplate st = audioMediaPLTemplate st2"
      using process_track_locals [OF v] by (auto simp add: mediaPlaylistTemplate_def split: track.splits)
    have audio_done:
      "audioMediaPLTemplate st \<noteq> [] \<and>
        last (audioMediaPLTemplate st) =
          segmentTemplate env (nth_opt (audioSegmentDurationList this) (aligned_length this - 1))
            (newSegmentUri_of (audioSegmentURIList this ! (aligned_length this - 1)))"
      if "after_last (CHR ''/'') (audioSegmentURIList this ! (aligned_length this - 1)) \<noteq> initFile"
      using process_track_commit [OF a ua that]
      by (simp add: keep mediaPlaylistTemplate_def track_durations_def aligned_lists
          newSegmentUri_of_def nameOnly_of_def k)
    have video_done:
      "videoMediaPLTemplate st \<noteq> [] \<and>
        last (videoMediaPLTemplate st) =
          segmentTemplate env (nth_opt (videoSegmentDurationList this) (aligned_length this - 1))
            (newSegmentUri_of (videoSegmentURIList this ! (aligned_length this - 1)))"
      if "after_last (CHR ''/'') (videoSegmentURIList this ! (aligned_length this - 1)) \<noteq> initFile"
      using process_track_commit [OF v uv that]
      by (simp add: mediaPlaylistTemplate_def track_durations_def aligned_lists
          newSegmentUri_of_def nameOnly_of_def k)
    show ?thesis
      using audio_done video_done pos by (simp add: ret token tpl)
  qed
qed

theorem returned_token_is_last_position_witness:
  "\<exists>r. processSegments example_env (example_saver 2 no_token) 2000 example_world = Inr r \<and>
       returned r = \<lparr>audio = Some ''http://cdn/a/1b.m4s'', video = Some ''http://cdn/v/1c.m4s''\<rparr> \<and>
       last (audioMediaPLTemplate (final_world r)) = ''#EXTINF:6,'' @ [newline] @ ''1b.mp4'' \<and>
       last (videoMediaPLTemplate (final_world r)) = ''#EXTINF:6,'' @ [newline] @ ''1c.mp4''"
proof -
  have "raised (processSegments example_env (example_saver 2 no_token) 2000 example_world) = None"
    by code_simp
  then obtain r where r: "processSegments example_env (example_saver 2 no_token) 2000 example_world = Inr r"
    by (cases "processSegments example_env (example_saver 2 no_token) 2000 example_world")
       (auto simp add: raised_def)
  have n: "aligned_length (example_saver 2 no_token) = 3" by code_simp
  have l: "audioSegmentURIList (example_saver 2 no_token) =
      [''http://cdn/a/init.mp4'', ''http://cdn/a/1a.m4s'', ''http://cdn/a/1b.m4s'']"
    "videoSegmentURIList (example_saver 2 no_token) =
      [''http://cdn/v/init.mp4'', ''http://cdn/v/1b.m4s'', ''http://cdn/v/1c.m4s'']"
    "audioSegmentDurationList (example_saver 2 no_token) = [0, 6, 6]"
    "videoSegmentDurationList (example_saver 2 no_token) = [0, 6, 6]"
    by code_simp+
  have names: "after_last (CHR ''/'') ''http://cdn/a/1b.m4s'' \<noteq> initFile"
    "after_last (CHR ''/'') ''http://cdn/v/1c.m4s'' \<noteq> initFile"
    "newSegmentUri_of ''http://cdn/a/1b.m4s'' = ''1b.mp4''"
    "newSegmentUri_of ''http://cdn/v/1c.m4s'' = ''1c.mp4''"
    by code_simp+
  from returned_token_is_last_position [OF r] n l names
  show ?thesis using r
    by (simp add: nth_opt_def segmentTemplate_def example_env_def)
qed

text \<open>
  Claim C7 as stated says that the returned URI is always that of a committed segment,
  never the init segment's. With \<open>maxSegmentNum_ = 0\<close> the constructor's lists hold the
  init segment only; the cycle completes, commits nothing (the playlists are as before
  and no playlist file is written), and returns the init segments' URIs.
\<close>

theorem returned_token_of_init_only_cycle:
  "audioSegmentURIList (example_saver 0 no_token) = [''http://cdn/a/init.mp4''] \<and>
   videoSegmentURIList (example_saver 0 no_token) = [''http://cdn/v/init.mp4''] \<and>
   token_of (processSegments example_env (example_saver 0 no_token) 2000 example_world) =
     Some \<lparr>audio = Some ''http://cdn/a/init.mp4'', video = Some ''http://cdn/v/init.mp4''\<rparr> \<and>
   audioMediaPLTemplate (world_after
       (processSegments example_env (example_saver 0 no_token) 2000 example_world)) =
     audioMediaPLTemplate example_world \<and>
   videoMediaPLTemplate (world_after
       (processSegments example_env (example_saver 0 no_token) 2000 example_world)) =
     videoMediaPLTemplate example_world \<and>
   playlistFiles (world_after
       (processSegments example_env (example_saver 0 no_token) 2000 example_world))
     ''out/audio/audio.m3u8'' = None"
  by code_simp

text \<open>
  Claim C9, as the code has it. When a cycle completes, no file is left under the audio
  and video subdirectories of the download root and of the merge root.
\<close>

theorem scratch_directories_emptied_on_completion:
  assumes "processSegments env this updateDuration w = Inr r"
  shows "filter (\<lambda>p. under_dir (savePath this @ ''audio'') p \<or>
                     under_dir (savePath this @ ''video'') p \<or>
                     under_dir (mergePath this @ ''audio'') p \<or>
                     under_dir (mergePath this @ ''video'') p)
           (files (final_world r)) = []"
  using processSegments_completes [OF assms]
  by (auto simp add: emptyDirSync_def filter_empty_conv)

theorem scratch_directories_emptied_on_completion_witness:
  "\<exists>r. processSegments example_env (example_saver 2 no_token) 2000 example_world = Inr r \<and>
       filter (\<lambda>p. under_dir ''dl/audio'' p \<or> under_dir ''dl/video'' p \<or>
                    under_dir ''merge/audio'' p \<or> under_dir ''merge/video'' p)
         (files (final_world r)) = []"
proof -
  have "raised (processSegments example_env (example_saver 2 no_token) 2000 example_world) = None"
    by code_simp
  then obtain r where r: "processSegments example_env (example_saver 2 no_token) 2000 example_world = Inr r"
    by (cases "processSegments example_env (example_saver 2 no_token) 2000 example_world")
       (auto simp add: raised_def)
  have p: "savePath (example_saver 2 no_token) = ''dl/''" "mergePath (example_saver 2 no_token) = ''merge/''"
    by code_simp+
  from scratch_directories_emptied_on_completion [OF r] p r
  show ?thesis by simp
qed

text \<open>
  Claim C9 as stated says that the directories are emptied also when the cycle is
  aborted by the segment error. The four \<open>emptyDirSync\<close> calls follow the loop, and the
  exception leaves the method from inside the loop: when the decryption of the audio
  segment \<open>1b\<close> fails, the files fetched and merged so far are still there.
\<close>

theorem scratch_directories_kept_on_abort:
  "raised (processSegments failing_decrypt_env (example_saver 2 no_token) 2000 example_world) =
     Some (StructuredError CRITICAL SEGMENT SEGMENT_MANIPULATION_FAILED) \<and>
   filter (under_dir ''dl/audio'')
     (files (world_after
        (processSegments failing_decrypt_env (example_saver 2 no_token) 2000 example_world))) =
     [''dl/audio/1b.m4s'', ''dl/audio/1a.m4s'', ''dl/audio/init.mp4''] \<and>
   filter (under_dir ''merge/video'')
     (files (world_after
        (processSegments failing_decrypt_env (example_saver 2 no_token) 2000 example_world))) =
     [''merge/video/1b.m4s'']"
  by code_simp

lemma merge_decrypt_commit_names:
  "merge_decrypt_commit env this t (after_last (CHR ''/'') url) (saveName_of this t url) st =
     (case merge_outcome_of env this t url (files st) of
        Rejected \<Rightarrow> Inl (MergeRejected, st\<lparr>files := merged_files env this t url (files st)\<rparr>)
      | Resolved status \<Rightarrow>
          if status
          then (if shell_exec_code env (decryptCommand_of env this t url) \<noteq> 0
                then Inl (segment_error, st\<lparr>files := merged_files env this t url (files st)\<rparr>)
                else playlist_append env this t (nameOnly_of url)
                       (st\<lparr>files := (resultPath this @ pathSuffix t @ newSegmentUri_of url)
                                      # merged_files env this t url (files st)\<rparr>))
          else Inl (segment_error, st\<lparr>files := merged_files env this t url (files st)\<rparr>))"
  by (simp add: merge_decrypt_commit_def Let_def inputPathList_of_def mergeFileName_of_def
      decryptCommand_of_def newSegmentUri_of_def nameOnly_of_def saveName_of_def
      merge_outcome_of_def merged_files_def split: merge_outcome.splits)

lemma process_track_names:
  "nth_opt (track_uris this t) i = Some url \<Longrightarrow>
   process_track env this i t st =
     (if download_resolves env url (saveName_of this t url)
      then (if after_last (CHR ''/'') url \<noteq> initFile
            then merge_decrypt_commit env this t (after_last (CHR ''/'') url) (saveName_of this t url)
                   ((assign_locals this i t st)\<lparr>files := saveName_of this t url # files st\<rparr>)
            else Inr ((assign_locals this i t st)\<lparr>files := saveName_of this t url # files st\<rparr>))
      else Inl (DownloadRejected, assign_locals this i t st))"
  by (cases t) (simp_all add: process_track_def Let_def saveName_of_def assign_locals_def)

lemma alignTracks_fields [simp]:
  "savePath (alignTracks this) = savePath this"
  "mergePath (alignTracks this) = mergePath this"
  "resultPath (alignTracks this) = resultPath this"
  "decryptScript (alignTracks this) = decryptScript this"
  "keyId (alignTracks this) = keyId this"
  "decryptKey (alignTracks this) = decryptKey this"
  "maxSegmentNum (alignTracks this) = maxSegmentNum this"
  "audioPLName (alignTracks this) = audioPLName this"
  "videoPLName (alignTracks this) = videoPLName this"
  by (simp_all add: alignTracks_def Let_def)

lemma names_of_aligned [simp]:
  "saveName_of (alignTracks this) t url = saveName_of this t url"
  "mergeFileName_of (alignTracks this) t url = mergeFileName_of this t url"
  "inputPathList_of (alignTracks this) t url = inputPathList_of this t url"
  "decryptCommand_of env (alignTracks this) t url = decryptCommand_of env this t url"
  "merge_outcome_of env (alignTracks this) t url fs = merge_outcome_of env this t url fs"
  "merged_files env (alignTracks this) t url fs = merged_files env this t url fs"
  "mediaPlaylistPath_of (alignTracks this) t = mediaPlaylistPath_of this t"
  "track_durations (alignTracks this) t = track_durations this t"
  by (simp_all add: saveName_of_def mergeFileName_of_def inputPathList_of_def decryptCommand_of_def
      merge_outcome_of_def merged_files_def mediaPlaylistPath_of_def playlistName_def
      track_durations_def aligned_lists split: track.splits)

lemma assign_locals_world [simp]:
  "files (assign_locals this i t st) = files st"
  "playlistFiles (assign_locals this i t st) = playlistFiles st"
  "audioMediaPLTemplate (assign_locals this i t st) = audioMediaPLTemplate st"
  "videoMediaPLTemplate (assign_locals this i t st) = videoMediaPLTemplate st"
  by (cases t; simp add: assign_locals_def)+

lemma process_track_failure:
  assumes "nth_opt (track_uris this t) i = Some url"
    and "download_resolves env url (saveName_of this t url)"
    and "after_last (CHR ''/'') url \<noteq> initFile"
    and "merge_outcome_of env this t url (saveName_of this t url # files st) \<noteq> Resolved True \<or>
         shell_exec_code env (decryptCommand_of env this t url) \<noteq> 0"
  shows "process_track env this i t st =
     Inl (if merge_outcome_of env this t url (saveName_of this t url # files st) = Rejected
          then MergeRejected else segment_error,
          (assign_locals this i t st)
            \<lparr>files := merged_files env this t url (saveName_of this t url # files st)\<rparr>)"
  using assms(2,3,4)
  by (auto simp add: process_track_names [OF assms(1)] merge_decrypt_commit_names
      split: merge_outcome.splits)

text \<open>
  What a failing merge or decryption does to the cycle. Let the steps before position
  \<open>i\<close> of track \<open>t\<close> have run without an exception, and let the segment there be fetched
  and not be named \<open>init.mp4\<close>. If its merge resolves to a falsy status, or its
  decryption gives a non-zero exit code, the cycle raises the error \<open>CRITICAL, SEGMENT,
  SEGMENT_MANIPULATION_FAILED\<close>; if the awaited merge rejects, the cycle is left with
  that rejection instead. In each case the world it leaves is the world those earlier
  steps produced, with the playlists and the playlist files unchanged, and with only
  the downloaded file (and the merged file, when the merge left one) added: no entry
  and no decrypted file for this segment, and nothing of the later steps.
\<close>

lemma segment_failure_aborts_cycle:
  assumes "steps (aligned_length this) = earlier @ (i, t) # later"
    and "run_steps env (alignTracks this) earlier (start_state w) = Inr st"
    and "nth_opt (track_uris (alignTracks this) t) i = Some url"
    and "download_resolves env url (saveName_of this t url)"
    and "after_last (CHR ''/'') url \<noteq> initFile"
    and "merge_outcome_of env this t url (saveName_of this t url # files st) \<noteq> Resolved True \<or>
         shell_exec_code env (decryptCommand_of env this t url) \<noteq> 0"
  shows "\<exists>w'. processSegments env this updateDuration w =
                Inl (if merge_outcome_of env this t url (saveName_of this t url # files st) = Rejected
                     then MergeRejected
                     else StructuredError CRITICAL SEGMENT SEGMENT_MANIPULATION_FAILED, w') \<and>
              audioMediaPLTemplate w' = audioMediaPLTemplate st \<and>
              videoMediaPLTemplate w' = videoMediaPLTemplate st \<and>
              playlistFiles w' = playlistFiles st \<and>
              files w' = merged_files env this t url (saveName_of this t url # files st)"
proof -
  let ?e = "if merge_outcome_of env this t url (saveName_of this t url # files st) = Rejected
            then MergeRejected else segment_error"
  let ?st' = "(assign_locals (alignTracks this) i t st)
                \<lparr>files := merged_files env this t url (saveName_of this t url # files st)\<rparr>"
  from process_track_failure [of "alignTracks this" t i url env st] assms(3,4,5,6)
  have step: "process_track env (alignTracks this) i t st = Inl (?e, ?st')"
    by simp
  have "run_steps env (alignTracks this) (steps (aligned_length this)) (start_state w) =
      Inl (?e, ?st')"
    by (simp add: assms(1) run_steps_append assms(2) step)
  then have "processSegments env this updateDuration w = Inl (?e, world_of ?st')"
    by (simp add: processSegments_def Let_def aligned_length_def)
  then show ?thesis
    by (simp add: segment_error_def)
qed

text \<open>
  The decryption of the audio segment \<open>1b\<close> fails after the audio segment \<open>1a\<close> and the
  video segment \<open>1b\<close> were committed.
\<close>

lemma segment_failure_aborts_cycle_example:
  "\<exists>w'. processSegments failing_decrypt_env (example_saver 2 no_token) 2000 example_world =
          Inl (StructuredError CRITICAL SEGMENT SEGMENT_MANIPULATION_FAILED, w') \<and>
        audioMediaPLTemplate w' =
          [example_header, ''#EXTINF:6,'' @ [newline] @ ''0f.mp4'',
           ''#EXTINF:6,'' @ [newline] @ ''1a.mp4''] \<and>
        videoMediaPLTemplate w' =
          [example_header, ''#EXTINF:6,'' @ [newline] @ ''0f.mp4'',
           ''#EXTINF:6,'' @ [newline] @ ''1b.mp4''] \<and>
        files w' =
          [''merge/audio/1b.m4s'', ''dl/audio/1b.m4s'', ''out/video/1b.mp4'',
           ''merge/video/1b.m4s'', ''dl/video/1b.m4s'', ''out/audio/1a.mp4'',
           ''merge/audio/1a.m4s'', ''dl/audio/1a.m4s'', ''dl/video/init.mp4'',
           ''dl/audio/init.mp4'', ''out/audio/0f.mp4'', ''out/video/0f.mp4'']"
proof -
  let ?sv = "example_saver 2 no_token"
  let ?earlier = "[(0, Audio), (0, Video), (1, Audio), (1, Video)]"
  let ?run = "run_steps failing_decrypt_env (alignTracks ?sv) ?earlier (start_state example_world)"
  let ?fs = "[''out/video/1b.mp4'',
           ''merge/video/1b.m4s'', ''dl/video/1b.m4s'', ''out/audio/1a.mp4'',
           ''merge/audio/1a.m4s'', ''dl/audio/1a.m4s'', ''dl/video/init.mp4'',
           ''dl/audio/init.mp4'', ''out/audio/0f.mp4'', ''out/video/0f.mp4'']"
  have s: "steps (aligned_length ?sv) = ?earlier @ (2, Audio) # [(2, Video)]"
    by code_simp
  have "(case ?run of Inl e \<Rightarrow> False | Inr st \<Rightarrow> True)" by code_simp
  then obtain st where st: "?run = Inr st" by (cases ?run) auto
  have "(case ?run of Inl e \<Rightarrow> [] | Inr st \<Rightarrow> audioMediaPLTemplate st) =
      [example_header, ''#EXTINF:6,'' @ [newline] @ ''0f.mp4'', ''#EXTINF:6,'' @ [newline] @ ''1a.mp4'']"
    and "(case ?run of Inl e \<Rightarrow> [] | Inr st \<Rightarrow> videoMediaPLTemplate st) =
      [example_header, ''#EXTINF:6,'' @ [newline] @ ''0f.mp4'', ''#EXTINF:6,'' @ [newline] @ ''1b.mp4'']"
    and "(case ?run of Inl e \<Rightarrow> [] | Inr st \<Rightarrow> files st) = ?fs"
    by code_simp+
  then have before: "audioMediaPLTemplate st =
      [example_header, ''#EXTINF:6,'' @ [newline] @ ''0f.mp4'', ''#EXTINF:6,'' @ [newline] @ ''1a.mp4'']"
    "videoMediaPLTemplate st =
      [example_header, ''#EXTINF:6,'' @ [newline] @ ''0f.mp4'', ''#EXTINF:6,'' @ [newline] @ ''1b.mp4'']"
    "files st = ?fs"
    unfolding st by simp_all
  have u: "nth_opt (track_uris (alignTracks ?sv) Audio) 2 = Some ''http://cdn/a/1b.m4s''"
    by code_simp
  have d: "download_resolves failing_decrypt_env ''http://cdn/a/1b.m4s''
      (saveName_of ?sv Audio ''http://cdn/a/1b.m4s'')"
    by code_simp
  have n: "after_last (CHR ''/'') ''http://cdn/a/1b.m4s'' \<noteq> initFile" by code_simp
  have f: "shell_exec_code failing_decrypt_env
      (decryptCommand_of failing_decrypt_env ?sv Audio ''http://cdn/a/1b.m4s'') \<noteq> 0"
    by code_simp
  have m: "merge_outcome_of failing_decrypt_env ?sv Audio ''http://cdn/a/1b.m4s''
        (saveName_of ?sv Audio ''http://cdn/a/1b.m4s'' # ?fs) \<noteq> Rejected"
    "merged_files failing_decrypt_env ?sv Audio ''http://cdn/a/1b.m4s''
        (saveName_of ?sv Audio ''http://cdn/a/1b.m4s'' # ?fs) =
      ''merge/audio/1b.m4s'' # ''dl/audio/1b.m4s'' # ?fs"
    by code_simp+
  from segment_failure_aborts_cycle [OF s st u d n disjI2 [OF f], of 2000]
  obtain w' where "processSegments failing_decrypt_env ?sv 2000 example_world =
        Inl (if merge_outcome_of failing_decrypt_env ?sv Audio ''http://cdn/a/1b.m4s''
                  (saveName_of ?sv Audio ''http://cdn/a/1b.m4s'' # files st) = Rejected
             then MergeRejected
             else StructuredError CRITICAL SEGMENT SEGMENT_MANIPULATION_FAILED, w')"
    and "audioMediaPLTemplate w' = audioMediaPLTemplate st"
    and "videoMediaPLTemplate w' = videoMediaPLTemplate st"
    and "files w' = merged_files failing_decrypt_env ?sv Audio ''http://cdn/a/1b.m4s''
                      (saveName_of ?sv Audio ''http://cdn/a/1b.m4s'' # files st)"
    by blast
  then show ?thesis unfolding before using m by simp
qed

text \<open>
  Claim C4. When the merge or the decryption of a segment fails, the cycle should raise
  the error \<open>CRITICAL, SEGMENT, SEGMENT_MANIPULATION_FAILED\<close>, produce no playlist entry
  and no committed file for that segment, leave the earlier commits as they are, and
  process no later segment. The code raises that error when the decryption fails and
  when the merge resolves to a falsy status (\<open>segment_failure_aborts_cycle\<close>), and lines
  304 to 309 say that this is what a failed merge should give; but the awaited merge is
  not inside a \<open>try\<close>, and a merge that fails by rejecting leaves the cycle with its
  rejection. When the merge of the audio segment \<open>1b\<close> rejects, the cycle raises the
  rejection and not that error; the playlists are those of the segments committed
  before, the merged file is left, no later segment is fetched, and no token is
  returned.
\<close>

theorem merge_rejection_leaves_the_cycle:
  "raised (processSegments rejecting_merge_env (example_saver 2 no_token) 2000 example_world) =
     Some MergeRejected \<and>
   raised (processSegments rejecting_merge_env (example_saver 2 no_token) 2000 example_world) \<noteq>
     Some (StructuredError CRITICAL SEGMENT SEGMENT_MANIPULATION_FAILED) \<and>
   audioMediaPLTemplate
     (world_after (processSegments rejecting_merge_env (example_saver 2 no_token) 2000 example_world)) =
     [example_header, ''#EXTINF:6,'' @ [newline] @ ''0f.mp4'', ''#EXTINF:6,'' @ [newline] @ ''1a.mp4''] \<and>
   files
     (world_after (processSegments rejecting_merge_env (example_saver 2 no_token) 2000 example_world)) =
     [''merge/audio/1b.m4s'', ''dl/audio/1b.m4s'', ''out/video/1b.mp4'',
      ''merge/video/1b.m4s'', ''dl/video/1b.m4s'', ''out/audio/1a.mp4'',
      ''merge/audio/1a.m4s'', ''dl/audio/1a.m4s'', ''dl/video/init.mp4'',
      ''dl/audio/init.mp4'', ''out/audio/0f.mp4'', ''out/video/0f.mp4''] \<and>
   token_of (processSegments rejecting_merge_env (example_saver 2 no_token) 2000 example_world) =
     None"
  by code_simp

lemma steps_before_split:
  "i < n \<Longrightarrow> \<exists>later. steps n = steps_before i t @ (i, t) # later"
proof (induction n)
  case 0
  then show ?case by simp
next
  case (Suc n)
  show ?case
  proof (cases "i < n")
    case True
    from Suc.IH [OF this] obtain later where "steps n = steps_before i t @ (i, t) # later" by blast
    then have "steps (Suc n) = steps_before i t @ (i, t) # (later @ [(n, Audio), (n, Video)])"
      by (simp add: steps_Suc)
    then show ?thesis by blast
  next
    case False
    with Suc.prems have "i = n" by simp
    then show ?thesis by (cases t) (simp_all add: steps_Suc steps_before_def)
  qed
qed

lemma run_steps_before:
  assumes "run_steps env this (steps n) st0 = Inr stn" and "i < n"
  shows "\<exists>st st'. run_steps env this (steps_before i t) st0 = Inr st \<and>
           process_track env this i t st = Inr st'"
proof -
  from steps_before_split [OF assms(2), of t]
  obtain later where "steps n = steps_before i t @ (i, t) # later" by blast
  with assms(1) show ?thesis
    by (auto simp add: run_steps_append split: sum.splits)
qed

lemma nth_opt_aligned_track:
  assumes "i < aligned_length this"
  shows "nth_opt (track_uris (alignTracks this) t) i = Some (track_uris this t ! i)"
proof -
  have "aligned_length this \<le> length (audioSegmentURIList this)"
    and "aligned_length this \<le> length (videoSegmentURIList this)"
    by (simp_all add: aligned_length_min)
  with assms show ?thesis
    by (cases t) (simp_all add: track_uris_def aligned_lists nth_opt_def)
qed

text \<open>
  Claim C5, as the code has it. In a cycle that completes, at every position that the
  loop visits (the positions below the length of the aligned lists) and for each track,
  the element is fetched, and whether it is committed is decided by the file name of
  its URL, not by its position. An element named \<open>init.mp4\<close> is fetched and nothing
  else: the step leaves the state it found, with the loop's variables assigned and the
  downloaded file added. Any other element was merged with the file \<open>init.mp4\<close> of the
  track's download directory and decrypted, both with success, and its entry is the
  last element of the track's playlist, which was written to the playlist file.
\<close>

theorem commit_is_decided_by_file_name:
  assumes "processSegments env this updateDuration w = Inr r"
    and "i < aligned_length this"
  shows "\<exists>st st'.
      run_steps env (alignTracks this) (steps_before i t) (start_state w) = Inr st \<and>
      process_track env (alignTracks this) i t st = Inr st' \<and>
      (let url = track_uris this t ! i
       in download_resolves env url (saveName_of this t url) \<and>
          (after_last (CHR ''/'') url = initFile \<longrightarrow>
             st' = (assign_locals (alignTracks this) i t st)
                     \<lparr>files := saveName_of this t url # files st\<rparr>) \<and>
          (after_last (CHR ''/'') url \<noteq> initFile \<longrightarrow>
             inputPathList_of this t url = [savePath this @ pathSuffix t @ ''init.mp4'',
                                            saveName_of this t url] \<and>
             merge_outcome_of env this t url (saveName_of this t url # files st) = Resolved True \<and>
             shell_exec_code env (decryptCommand_of env this t url) = 0 \<and>
             mediaPlaylistTemplate t st' \<noteq> [] \<and>
             last (mediaPlaylistTemplate t st') =
               segmentTemplate env (nth_opt (track_durations this t) i) (newSegmentUri_of url) \<and>
             playlistFiles st' (mediaPlaylistPath_of this t) =
               Some (join [newline] (mediaPlaylistTemplate t st'))))"
proof -
  let ?sv = "alignTracks this"
  let ?url = "track_uris this t ! i"
  from processSegments_completes [OF assms(1)]
  obtain stn where "run_steps env ?sv (steps (aligned_length this)) (start_state w) = Inr stn"
    by (auto simp add: aligned_length_def)
  from run_steps_before [OF this assms(2), of t]
  obtain st st' where run: "run_steps env ?sv (steps_before i t) (start_state w) = Inr st"
    and step: "process_track env ?sv i t st = Inr st'" by blast
  note u = nth_opt_aligned_track [OF assms(2), of t]
  from step have d: "download_resolves env ?url (saveName_of this t ?url)"
    by (auto simp add: process_track_names [OF u] split: if_splits)
  have init: "st' = (assign_locals ?sv i t st)\<lparr>files := saveName_of this t ?url # files st\<rparr>"
    if "after_last (CHR ''/'') ?url = initFile"
    using step d that by (simp add: process_track_names [OF u])
  have media: "merge_outcome_of env this t ?url (saveName_of this t ?url # files st) = Resolved True \<and>
      shell_exec_code env (decryptCommand_of env this t ?url) = 0"
    if "after_last (CHR ''/'') ?url \<noteq> initFile"
    using step d that
    by (auto simp add: process_track_names [OF u]
        merge_decrypt_commit_names [where this = "alignTracks this",
          unfolded names_of_aligned alignTracks_fields]
        split: if_splits merge_outcome.splits)
  have entry: "mediaPlaylistTemplate t st' \<noteq> [] \<and>
      last (mediaPlaylistTemplate t st') =
        segmentTemplate env (nth_opt (track_durations this t) i) (newSegmentUri_of ?url) \<and>
      playlistFiles st' (mediaPlaylistPath_of this t) =
        Some (join [newline] (mediaPlaylistTemplate t st'))"
    if "after_last (CHR ''/'') ?url \<noteq> initFile"
    using process_track_commit [OF step u that]
    by (cases t)
       (simp_all add: newSegmentUri_of_def nameOnly_of_def mediaPlaylistPath_of_def playlistName_def)
  have inputs: "inputPathList_of this t ?url =
      [savePath this @ pathSuffix t @ ''init.mp4'', saveName_of this t ?url]"
    by (simp add: inputPathList_of_def initFile_def)
  from run step d init media entry inputs show ?thesis
    unfolding Let_def by blast
qed

theorem commit_is_decided_by_file_name_witness:
  "\<exists>r st0 st0' st1 st1'.
     processSegments example_env (example_saver 2 no_token) 2000 example_world = Inr r \<and>
     run_steps example_env (alignTracks (example_saver 2 no_token)) (steps_before 0 Audio)
       (start_state example_world) = Inr st0 \<and>
     process_track example_env (alignTracks (example_saver 2 no_token)) 0 Audio st0 = Inr st0' \<and>
     audioMediaPLTemplate st0' = audioMediaPLTemplate example_world \<and>
     files st0' = ''dl/audio/init.mp4'' # files example_world \<and>
     run_steps example_env (alignTracks (example_saver 2 no_token)) (steps_before 1 Audio)
       (start_state example_world) = Inr st1 \<and>
     process_track example_env (alignTracks (example_saver 2 no_token)) 1 Audio st1 = Inr st1' \<and>
     last (audioMediaPLTemplate st1') = ''#EXTINF:6,'' @ [newline] @ ''1a.mp4''"
proof -
  let ?sv = "example_saver 2 no_token"
  have "raised (processSegments example_env ?sv 2000 example_world) = None"
    by code_simp
  then obtain r where r: "processSegments example_env ?sv 2000 example_world = Inr r"
    by (cases "processSegments example_env ?sv 2000 example_world") (auto simp add: raised_def)
  have n: "0 < aligned_length ?sv" "1 < aligned_length ?sv" by code_simp+
  have u: "track_uris ?sv Audio ! 0 = ''http://cdn/a/init.mp4''"
    "track_uris ?sv Audio ! 1 = ''http://cdn/a/1a.m4s''"
    by code_simp+
  have names: "after_last (CHR ''/'') ''http://cdn/a/init.mp4'' = initFile"
    "after_last (CHR ''/'') ''http://cdn/a/1a.m4s'' \<noteq> initFile"
    "saveName_of ?sv Audio ''http://cdn/a/init.mp4'' = ''dl/audio/init.mp4''"
    "segmentTemplate example_env (nth_opt (track_durations ?sv Audio) 1)
       (newSegmentUri_of ''http://cdn/a/1a.m4s'') = ''#EXTINF:6,'' @ [newline] @ ''1a.mp4''"
    by code_simp+
  have start: "steps_before 0 Audio = []" by code_simp
  from commit_is_decided_by_file_name [OF r n(1), of Audio]
  obtain st0 st0' where
    r0: "run_steps example_env (alignTracks ?sv) (steps_before 0 Audio) (start_state example_world) = Inr st0"
    and p0: "process_track example_env (alignTracks ?sv) 0 Audio st0 = Inr st0'"
    and e0: "st0' = (assign_locals (alignTracks ?sv) 0 Audio st0)\<lparr>files := ''dl/audio/init.mp4'' # files st0\<rparr>"
    unfolding Let_def u names by blast
  from r0 have "st0 = start_state example_world" by (simp add: start)
  with e0 have f0: "audioMediaPLTemplate st0' = audioMediaPLTemplate example_world"
    "files st0' = ''dl/audio/init.mp4'' # files example_world"
    by (simp_all add: start_state_def)
  from commit_is_decided_by_file_name [OF r n(2), of Audio]
  obtain st1 st1' where
    r1: "run_steps example_env (alignTracks ?sv) (steps_before 1 Audio) (start_state example_world) = Inr st1"
    and p1: "process_track example_env (alignTracks ?sv) 1 Audio st1 = Inr st1'"
    and e1: "last (mediaPlaylistTemplate Audio st1') = ''#EXTINF:6,'' @ [newline] @ ''1a.mp4''"
    unfolding Let_def u using names by auto
  from e1 have "last (audioMediaPLTemplate st1') = ''#EXTINF:6,'' @ [newline] @ ''1a.mp4''"
    by (simp add: mediaPlaylistTemplate_def)
  with r r0 p0 f0 r1 p1 show ?thesis by blast
qed

text \<open>
  Claim C5 as stated says that every element at an index of 1 or more is merged,
  decrypted and committed, whatever its file name. On an audio index whose media
  segment is \<open>x/init.mp4\<close>, the cycle completes (the video segment \<open>1a\<close> at index 1 is
  committed), and the audio element at index 1 is only fetched: the audio playlist is
  as before, no audio playlist file is written, and nothing is merged or decrypted for
  the audio track.
\<close>

theorem media_segment_named_init_is_skipped:
  "audioSegmentURIList renamed_saver = [''http://cdn/a/init.mp4'', ''http://cdn/a/x/init.mp4''] \<and>
   aligned_length renamed_saver = 2 \<and>
   raised (processSegments example_env renamed_saver 2000 example_world) = None \<and>
   audioMediaPLTemplate
     (world_after (processSegments example_env renamed_saver 2000 example_world)) =
     audioMediaPLTemplate example_world \<and>
   playlistFiles (world_after (processSegments example_env renamed_saver 2000 example_world))
     ''out/audio/audio.m3u8'' = None \<and>
   videoMediaPLTemplate
     (world_after (processSegments example_env renamed_saver 2000 example_world)) =
     [example_header, ''#EXTINF:6,'' @ [newline] @ ''0f.mp4'', ''#EXTINF:6,'' @ [newline] @ ''1a.mp4''] \<and>
   files (world_after (processSegments example_env renamed_saver 2000 example_world)) =
     [''out/video/1a.mp4'', ''out/audio/0f.mp4'', ''out/video/0f.mp4'']"
  by code_simp

section \<open>Properties of the string operations\<close>

lemma digit_char_props:
  "d < 10 \<Longrightarrow> is_digit (digit_char d) \<and> digit_value (digit_char d) = d"
proof -
  assume "d < 10"
  then have "d \<in> set [0, 1, 2, 3, 4, 5, 6, 7, 8, 9]" by (simp add: insert_iff) arith
  then show ?thesis
    by (auto simp add: digit_char_def is_digit_def digit_value_def)
qed

declare str_of_nat.simps [simp del]

lemma str_of_nat_digits: "str_of_nat n \<noteq> [] \<and> list_all is_digit (str_of_nat n)"
proof (induction n rule: str_of_nat.induct)
  case (1 n)
  show ?case
  proof (cases "n < 10")
    case True
    then show ?thesis by (simp add: str_of_nat.simps [of n] digit_char_props)
  next
    case False
    then show ?thesis
      using 1 by (simp add: str_of_nat.simps [of n] digit_char_props)
  qed
qed

lemma parse_str_of_nat:
  "foldl (\<lambda>acc c. 10 * acc + digit_value c) 0 (str_of_nat n) = n"
proof (induction n rule: str_of_nat.induct)
  case (1 n)
  show ?case
  proof (cases "n < 10")
    case True
    then show ?thesis by (simp add: str_of_nat.simps [of n] digit_char_props)
  next
    case False
    then show ?thesis
      using 1 by (simp add: str_of_nat.simps [of n] digit_char_props)
  qed
qed

lemma takeWhile_digits:
  "list_all is_digit ds \<Longrightarrow> (case r of [] \<Rightarrow> True | c # _ \<Rightarrow> \<not> is_digit c) \<Longrightarrow>
   takeWhile is_digit (ds @ r) = ds \<and> dropWhile is_digit (ds @ r) = r"
  by (induction ds) (auto split: list.splits)

lemma parseInt_str_of_nat: "parseInt (str_of_nat n) = Some n"
proof -
  have tw: "takeWhile is_digit (str_of_nat n) = str_of_nat n"
    using str_of_nat_digits [of n] by (simp add: takeWhile_eq_all_conv list_all_iff)
  show ?thesis
    unfolding parseInt_def tw
    using str_of_nat_digits [of n] parse_str_of_nat [of n]
    by (cases "str_of_nat n") simp_all
qed

subsection \<open>The regular expression\<close>

lemma matches_at_digit:
  "matches_at pat s \<Longrightarrow> length pat < length s \<and> is_digit (s ! length pat)"
  by (induction pat s rule: matches_at.induct) (auto split: list.splits)

lemma matches_at_nth:
  "matches_at pat s \<Longrightarrow> i < length pat \<Longrightarrow> s ! i = fst (pat ! i) \<or> s ! i = snd (pat ! i)"
proof (induction pat s arbitrary: i rule: matches_at.induct)
  case (3 q qs c cs)
  then show ?case by (cases i) auto
qed simp_all

lemma matches_at_class:
  "matches_at pat s \<Longrightarrow> list_all (\<lambda>q. P (fst q) \<and> P (snd q)) pat \<Longrightarrow>
   list_all P (take (length pat) s)"
  by (induction pat s rule: matches_at.induct) auto

lemma directive_chars:
  "list_all (\<lambda>q. \<not> is_digit (fst q) \<and> \<not> is_digit (snd q)) sequence_directive"
  "list_all (\<lambda>q. fst q \<noteq> CHR ''#'' \<and> snd q \<noteq> CHR ''#'') (tl sequence_directive)"
  "length sequence_directive = 22"
  "sequence_directive ! 0 = (CHR ''#'', CHR ''#'')"
  "sequence_directive ! 4 = (CHR ''-'', CHR ''-'')"
  "matches_at sequence_directive (''#EXT-X-MEDIA-SEQUENCE:'' @ d # ds) = is_digit d"
  by (simp_all add: sequence_directive_def is_digit_def)

declare regex_search.simps [simp del]

lemma regex_search_here:
  "matches_at sequence_directive s \<Longrightarrow>
   regex_search s =
     Some ([], take 22 s @ takeWhile is_digit (drop 22 s), dropWhile is_digit (drop 22 s))"
  by (simp add: regex_search.simps [of s])

lemma regex_search_later:
  "\<not> matches_at sequence_directive (c # cs) \<Longrightarrow>
   regex_search (c # cs) =
     map_option (\<lambda>(before, matched, rest). (c # before, matched, rest)) (regex_search cs)"
  by (simp add: regex_search.simps [of "c # cs"])

lemma regex_search_Nil: "regex_search [] = None"
  by (simp add: regex_search.simps [of "[]"] sequence_directive_def)

text \<open>What a match is made of.\<close>

lemma regex_search_parts:
  "regex_search s = Some (b, m, r) \<Longrightarrow>
   \<exists>u. s = b @ u \<and> matches_at sequence_directive u \<and>
       m = take 22 u @ takeWhile is_digit (drop 22 u) \<and>
       r = dropWhile is_digit (drop 22 u)"
proof (induction s arbitrary: b)
  case Nil
  then show ?case by (simp add: regex_search_Nil)
next
  case (Cons c cs)
  show ?case
  proof (cases "matches_at sequence_directive (c # cs)")
    case True
    with Cons.prems show ?thesis
      by (auto simp add: regex_search_here)
  next
    case False
    with Cons.prems obtain b' where b: "b = c # b'" and r: "regex_search cs = Some (b', m, r)"
      by (auto simp add: regex_search_later)
    from Cons.IH [OF r] show ?thesis by (auto simp add: b)
  qed
qed

lemma dropWhile_head: "(case dropWhile P xs of [] \<Rightarrow> True | c # _ \<Rightarrow> \<not> P c)"
  by (induction xs) auto

lemma match_shape:
  assumes "matches_at sequence_directive u"
  shows "\<exists>body d ds. take 22 u @ takeWhile is_digit (drop 22 u) = CHR ''#'' # body @ d # ds \<and>
           length body = 21 \<and> CHR ''#'' \<notin> set body \<and> body ! 3 = CHR ''-'' \<and>
           list_all (\<lambda>c. \<not> is_digit c) (CHR ''#'' # body) \<and>
           is_digit d \<and> list_all is_digit ds \<and>
           (case dropWhile is_digit (drop 22 u) of [] \<Rightarrow> True | c # _ \<Rightarrow> \<not> is_digit c)"
proof -
  from matches_at_digit [OF assms] have len: "22 < length u" and dig: "is_digit (u ! 22)"
    by (simp_all add: directive_chars)
  then obtain c cs where u: "u = c # cs" by (cases u) auto
  have c: "c = CHR ''#''"
    using matches_at_nth [OF assms, of 0] by (simp add: directive_chars u)
  have tail: "matches_at (tl sequence_directive) cs"
    using assms by (simp add: u sequence_directive_def)
  have nohash: "list_all (\<lambda>c. c \<noteq> CHR ''#'') (take 21 cs)"
    using matches_at_class [OF tail, of "\<lambda>c. c \<noteq> CHR ''#''"] directive_chars(2)
    by (simp add: directive_chars)
  have nodigit: "list_all (\<lambda>c. \<not> is_digit c) (take 22 u)"
    using matches_at_class [OF assms, of "\<lambda>c. \<not> is_digit c"] directive_chars(1)
    by (simp add: directive_chars)
  have dash: "cs ! 3 = CHR ''-''"
    using matches_at_nth [OF assms, of 4] by (simp add: directive_chars u)
  obtain d rest where dr: "drop 22 u = d # rest" and d: "is_digit d"
    using len dig by (cases "drop 22 u") (auto simp add: hd_drop_conv_nth dest: arg_cong [where f = hd])
  have tk: "take 22 u = CHR ''#'' # take 21 cs" by (simp add: u c)
  have tw: "takeWhile is_digit (drop 22 u) = d # takeWhile is_digit rest"
    by (simp add: dr d)
  have eq: "take 22 u @ takeWhile is_digit (drop 22 u) =
      CHR ''#'' # take 21 cs @ d # takeWhile is_digit rest"
    by (simp only: tk tw append_Cons)
  have l: "length (take 21 cs) = 21" using len by (simp add: u)
  have nh: "CHR ''#'' \<notin> set (take 21 cs)" using nohash by (auto simp add: list_all_iff)
  have d3: "take 21 cs ! 3 = CHR ''-''" using dash by simp
  have nd: "list_all (\<lambda>c. \<not> is_digit c) (CHR ''#'' # take 21 cs)"
    using nodigit by (simp only: tk)
  have ds: "list_all is_digit (takeWhile is_digit rest)"
    by (simp add: list_all_iff) (meson set_takeWhileD)
  have hd: "case dropWhile is_digit (drop 22 u) of [] \<Rightarrow> True | c # _ \<Rightarrow> \<not> is_digit c"
    by (rule dropWhile_head)
  show ?thesis using eq l nh d3 nd d ds hd by blast
qed

lemma no_match_inside_directive:
  assumes "length qs < length D" and "list_all (\<lambda>c. \<not> is_digit c) D"
  shows "\<not> matches_at qs (D @ x)"
proof
  assume "matches_at qs (D @ x)"
  from matches_at_digit [OF this] assms(1) have "is_digit (D ! length qs)"
    by (simp add: nth_append)
  moreover have "D ! length qs \<in> set D" using assms(1) by simp
  ultimately show False using assms(2) by (auto simp add: list_all_iff)
qed

lemma match_before_directive:
  "matches_at pat (p @ D @ x) \<Longrightarrow> p \<noteq> [] \<Longrightarrow> length pat \<le> length D \<Longrightarrow>
   list_all (\<lambda>c. \<not> is_digit c) D \<Longrightarrow> matches_at pat (p @ y)"
proof (induction pat arbitrary: p)
  case Nil
  then show ?case by (cases p) auto
next
  case (Cons q qs)
  from Cons.prems(2) obtain c p' where p: "p = c # p'" by (cases p) auto
  from Cons.prems(1) have c: "c = fst q \<or> c = snd q" and rest: "matches_at qs (p' @ D @ x)"
    by (simp_all add: p)
  show ?case
  proof (cases "p' = []")
    case True
    with rest have "matches_at qs (D @ x)" by simp
    moreover have "length qs < length D" using Cons.prems(3) by simp
    ultimately show ?thesis
      using no_match_inside_directive [of qs D x] Cons.prems(4) by blast
  next
    case False
    from Cons.IH [OF rest False _ Cons.prems(4)] Cons.prems(3)
    have "matches_at qs (p' @ y)" by simp
    with c show ?thesis by (simp add: p)
  qed
qed

lemma directive_text_no_digit:
  "list_all (\<lambda>c. \<not> is_digit c) ''#EXT-X-MEDIA-SEQUENCE:''"
  by (simp add: is_digit_def)

lemma regex_search_replaced:
  "regex_search s = Some (b, m, r) \<Longrightarrow> is_digit d \<Longrightarrow> list_all is_digit ds \<Longrightarrow>
   regex_search (b @ ''#EXT-X-MEDIA-SEQUENCE:'' @ (d # ds) @ r) =
     Some (b, ''#EXT-X-MEDIA-SEQUENCE:'' @ d # ds, r)"
proof (induction s arbitrary: b)
  case Nil
  then show ?case by (simp add: regex_search_Nil)
next
  case (Cons c cs)
  show ?case
  proof (cases "matches_at sequence_directive (c # cs)")
    case True
    with Cons.prems(1) have b: "b = []" and r: "r = dropWhile is_digit (drop 22 (c # cs))"
      by (auto simp add: regex_search_here)
    have head: "case r of [] \<Rightarrow> True | c # _ \<Rightarrow> \<not> is_digit c"
      unfolding r by (rule dropWhile_head)
    have m: "matches_at sequence_directive (''#EXT-X-MEDIA-SEQUENCE:'' @ d # ds @ r)"
      using directive_chars(6) [of d "ds @ r"] Cons.prems(2) by simp
    have "list_all is_digit (d # ds)" using Cons.prems(2,3) by simp
    from takeWhile_digits [OF this head]
    show ?thesis
      using regex_search_here [OF m] by (simp add: b)
  next
    case False
    with Cons.prems(1) obtain b' where b: "b = c # b'" and r: "regex_search cs = Some (b', m, r)"
      by (auto simp add: regex_search_later)
    from regex_search_parts [OF r] obtain u where cs: "cs = b' @ u" by blast
    have "\<not> matches_at sequence_directive ((c # b') @ ''#EXT-X-MEDIA-SEQUENCE:'' @ ((d # ds) @ r))"
    proof
      assume "matches_at sequence_directive ((c # b') @ ''#EXT-X-MEDIA-SEQUENCE:'' @ ((d # ds) @ r))"
      from match_before_directive [OF this _ _ directive_text_no_digit, of u]
      have "matches_at sequence_directive (c # cs)" by (simp add: cs directive_chars)
      with False show False by simp
    qed
    then show ?thesis
      using Cons.IH [OF r Cons.prems(2,3)] by (simp add: b regex_search_later)
  qed
qed

subsection \<open>Entries and the header\<close>

lemma includes_skips:
  "CHR ''#'' \<notin> set u \<Longrightarrow> str_includes (u @ v) ''#EXTINF:'' = str_includes v ''#EXTINF:''"
  by (induction u) auto

lemma prefix_up_to_hash:
  "CHR ''#'' \<notin> set qs \<Longrightarrow> prefix qs (p @ CHR ''#'' # x) = prefix qs (p @ CHR ''#'' # y)"
proof (induction p arbitrary: qs)
  case Nil
  then show ?case by (cases qs) auto
next
  case (Cons c p)
  then show ?case by (cases qs) auto
qed

lemma includes_directive:
  assumes "CHR ''#'' \<notin> set body" and "3 < length body" and "body ! 3 = CHR ''-''"
  shows "str_includes (b @ CHR ''#'' # body @ r) ''#EXTINF:'' =
         (str_includes (b @ ''#'') ''#EXTINF:'' \<or> str_includes r ''#EXTINF:'')"
proof (induction b)
  case Nil
  obtain c0 c1 c2 c3 rest where body: "body = c0 # c1 # c2 # c3 # rest"
    using assms(2) by (cases body; cases "tl body"; cases "tl (tl body)"; cases "tl (tl (tl body))") auto
  have "c3 = CHR ''-''" using assms(3) by (simp add: body)
  then have "\<not> prefix ''#EXTINF:'' (CHR ''#'' # body @ r)" by (simp add: body)
  then show ?case using includes_skips [OF assms(1), of r] by simp
next
  case (Cons c b)
  have "prefix ''EXTINF:'' (b @ CHR ''#'' # body @ r) = prefix ''EXTINF:'' (b @ CHR ''#'' # [])"
    by (rule prefix_up_to_hash) simp
  then show ?case using Cons by auto
qed

lemma digit_not_hash: "is_digit c \<Longrightarrow> c \<noteq> CHR ''#''"
  by (auto simp add: is_digit_def)

lemma dropWhile_to_digits:
  "list_all (\<lambda>c. \<not> is_digit c) xs \<Longrightarrow> is_digit d \<Longrightarrow>
   dropWhile (\<lambda>c. \<not> is_digit c) (xs @ d # ds) = d # ds"
  by (induction xs) auto

lemma media_sequence_of_None: "(media_sequence_of item = None) = (regex_search item = None)"
proof (cases "regex_search item")
  case None
  then show ?thesis by (simp add: media_sequence_of_def)
next
  case (Some a)
  obtain b m r where a: "a = (b, m, r)" by (cases a) auto
  from regex_search_parts [OF Some [unfolded a]] obtain u
    where u: "matches_at sequence_directive u"
      and m: "m = take 22 u @ takeWhile is_digit (drop 22 u)" by blast
  from match_shape [OF u] obtain body d ds
    where shape: "m = CHR ''#'' # body @ d # ds" "list_all (\<lambda>c. \<not> is_digit c) (CHR ''#'' # body)"
      "is_digit d" "list_all is_digit ds"
    unfolding m by blast
  have "dropWhile (\<lambda>c. \<not> is_digit c) m = d # ds"
    using dropWhile_to_digits [OF shape(2,3), of ds] by (simp add: shape(1))
  then show ?thesis
    using shape(3) by (simp add: media_sequence_of_def Some a parseInt_def)
qed

lemma bump_media_sequence_None: "(bump_media_sequence item = None) = (regex_search item = None)"
  by (cases "regex_search item") (auto simp add: bump_media_sequence_def Let_def)

lemma bump_media_sequence_Some:
  assumes "media_sequence_of item = Some v"
  shows "\<exists>newItem. bump_media_sequence item = Some newItem \<and>
           media_sequence_of newItem = Some (Suc v) \<and>
           str_includes newItem ''#EXTINF:'' = str_includes item ''#EXTINF:''"
proof -
  from assms obtain b m r where rs: "regex_search item = Some (b, m, r)"
    and pv: "parseInt (dropWhile (\<lambda>c. \<not> is_digit c) m) = Some v"
    by (auto simp add: media_sequence_of_def split: option.splits)
  from regex_search_parts [OF rs] obtain u
    where item: "item = b @ u" and u: "matches_at sequence_directive u"
      and m: "m = take 22 u @ takeWhile is_digit (drop 22 u)"
      and r: "r = dropWhile is_digit (drop 22 u)" by blast
  have umr: "u = m @ r" by (simp add: m r)
  from match_shape [OF u] obtain body d ds
    where shape: "m = CHR ''#'' # body @ d # ds" "length body = 21" "CHR ''#'' \<notin> set body"
      "body ! 3 = CHR ''-''" "is_digit d" "list_all is_digit ds"
    unfolding m by blast
  obtain d' ds' where new: "str_of_nat (Suc v) = d' # ds'" and d': "is_digit d'"
    and ds': "list_all is_digit ds'"
    using str_of_nat_digits [of "Suc v"] by (cases "str_of_nat (Suc v)") auto
  define newItem where "newItem = b @ ''#EXT-X-MEDIA-SEQUENCE:'' @ (d' # ds') @ r"
  have bump: "bump_media_sequence item = Some newItem"
    by (simp add: bump_media_sequence_def rs pv number_string_def new newItem_def)
  have found: "regex_search newItem = Some (b, ''#EXT-X-MEDIA-SEQUENCE:'' @ d' # ds', r)"
    unfolding newItem_def by (rule regex_search_replaced [OF rs d' ds'])
  have "dropWhile (\<lambda>c. \<not> is_digit c) (''#EXT-X-MEDIA-SEQUENCE:'' @ d' # ds') = d' # ds'"
    by (rule dropWhile_to_digits [OF directive_text_no_digit d'])
  then have seq: "media_sequence_of newItem = Some (Suc v)"
    using parseInt_str_of_nat [of "Suc v"] by (simp add: media_sequence_of_def found new)
  have old_inc: "str_includes item ''#EXTINF:'' =
      (str_includes (b @ ''#'') ''#EXTINF:'' \<or> str_includes r ''#EXTINF:'')"
  proof -
    have "item = b @ CHR ''#'' # (body @ d # ds) @ r" by (simp add: item umr shape(1))
    moreover have "CHR ''#'' \<notin> set (body @ d # ds)"
      using shape(3,5,6) by (auto simp add: list_all_iff dest: digit_not_hash)
    moreover have "3 < length (body @ d # ds)" "(body @ d # ds) ! 3 = CHR ''-''"
      using shape(2,4) by (simp_all add: nth_append)
    ultimately show ?thesis using includes_directive by metis
  qed
  have new_inc: "str_includes newItem ''#EXTINF:'' =
      (str_includes (b @ ''#'') ''#EXTINF:'' \<or> str_includes r ''#EXTINF:'')"
  proof -
    have "newItem = b @ CHR ''#'' # (''EXT-X-MEDIA-SEQUENCE:'' @ d' # ds') @ r"
      by (simp add: newItem_def)
    moreover have "CHR ''#'' \<notin> set (''EXT-X-MEDIA-SEQUENCE:'' @ d' # ds')"
      using d' ds' by (auto simp add: list_all_iff dest: digit_not_hash)
    moreover have "3 < length (''EXT-X-MEDIA-SEQUENCE:'' @ d' # ds')"
      "(''EXT-X-MEDIA-SEQUENCE:'' @ d' # ds') ! 3 = CHR ''-''"
      by simp_all
    ultimately show ?thesis using includes_directive by metis
  qed
  show ?thesis using bump seq old_inc new_inc by simp
qed

lemma filter_remove1_first:
  "filter P xs = x # rest \<Longrightarrow> filter P (remove1 x xs) = rest"
proof (induction xs)
  case Nil
  then show ?case by simp
next
  case (Cons a xs)
  have "x \<in> set (filter P (a # xs))" by (simp only: Cons.prems list.set_intros)
  then have Px: "P x" by (simp only: set_filter mem_Collect_eq)
  show ?case
  proof (cases "P a")
    case True
    with Cons.prems show ?thesis by simp
  next
    case False
    with Px have "a \<noteq> x" by auto
    with False Cons show ?thesis by simp
  qed
qed

lemma entry_is_item: "str_includes (segmentTemplate env d name) ''#EXTINF:''"
  by (simp add: segmentTemplate_def)

section \<open>Properties of the rolling playlist\<close>

lemma evict_oldest_ok:
  assumes tpl: "mediaPlaylistTemplate t st = item0 # items"
    and hdr: "\<not> str_includes item0 ''#EXTINF:''"
    and old: "segment_items (item0 # items) = oldItem # rest"
    and there: "resultPath this @ pathSuffix t @ after_last newline oldItem \<in> set (files st)"
    and bump: "bump_media_sequence item0 = Some newItem"
  shows "\<exists>st1. evict_oldest this t st = Inr st1 \<and>
           mediaPlaylistTemplate t st1 = newItem # remove1 oldItem items \<and>
           segmentDuration st1 = segmentDuration st \<and> playlistFiles st1 = playlistFiles st"
proof -
  have "oldItem \<in> set (segment_items (item0 # items))" by (simp add: old)
  then have "str_includes oldItem ''#EXTINF:''" by (auto simp add: segment_items_def split: if_splits)
  with hdr have ne: "oldItem \<noteq> item0" by auto
  show ?thesis
    using there bump ne by (simp add: evict_oldest_def tpl old Let_def)
qed


text \<open>
  Claim C3, as the code has it. When the entry count of a playlist array is below
  \<open>maxSegmentNum_\<close>, the append completes: the array is the old one with the new entry at
  the end (no entry removed, the header untouched) and the count is still at most
  \<open>maxSegmentNum_\<close>. When the count equals \<open>maxSegmentNum_\<close>, the window holds at least one
  entry, element 0 of the array carries the media-sequence directive (with an integer
  below \<open>2^53\<close>, where JavaScript's arithmetic is exact) and is not itself an entry, and
  the oldest entry has its file, the append completes as well: exactly the oldest entry
  has been removed, the new entry is at the end, the media-sequence integer has
  increased by one, and the count is \<open>maxSegmentNum_\<close> again.
\<close>

theorem playlist_append_window:
  "(int (length (segment_items (mediaPlaylistTemplate t st))) < maxSegmentNum this \<longrightarrow>
      (\<exists>st'. playlist_append env this t nameOnly st = Inr st' \<and>
         mediaPlaylistTemplate t st' =
           mediaPlaylistTemplate t st
             @ [segmentTemplate env (segmentDuration st) (nameOnly @ ''.mp4'')] \<and>
         int (length (segment_items (mediaPlaylistTemplate t st'))) \<le> maxSegmentNum this)) \<and>
   (int (length (segment_items (mediaPlaylistTemplate t st))) = maxSegmentNum this \<and>
    0 < maxSegmentNum this \<and>
    mediaPlaylistTemplate t st \<noteq> [] \<and>
    \<not> str_includes (hd (mediaPlaylistTemplate t st)) ''#EXTINF:'' \<and>
    media_sequence (mediaPlaylistTemplate t st) = Some n \<and> n < 2 ^ 53 \<and>
    resultPath this @ pathSuffix t
      @ after_last newline (hd (segment_items (mediaPlaylistTemplate t st))) \<in> set (files st) \<longrightarrow>
      (\<exists>st'. playlist_append env this t nameOnly st = Inr st' \<and>
         int (length (segment_items (mediaPlaylistTemplate t st'))) \<le> maxSegmentNum this \<and>
         segment_items (mediaPlaylistTemplate t st') =
           tl (segment_items (mediaPlaylistTemplate t st))
             @ [segmentTemplate env (segmentDuration st) (nameOnly @ ''.mp4'')] \<and>
         tl (mediaPlaylistTemplate t st') =
           remove1 (hd (segment_items (mediaPlaylistTemplate t st)))
               (tl (mediaPlaylistTemplate t st))
             @ [segmentTemplate env (segmentDuration st) (nameOnly @ ''.mp4'')] \<and>
         media_sequence (mediaPlaylistTemplate t st') = Some (n + 1)))"
proof (intro conjI impI)
  let ?entry = "segmentTemplate env (segmentDuration st) (nameOnly @ ''.mp4'')"
  assume below: "int (length (segment_items (mediaPlaylistTemplate t st))) < maxSegmentNum this"
  have items: "segment_items (mediaPlaylistTemplate t st @ [?entry]) =
      segment_items (mediaPlaylistTemplate t st) @ [?entry]"
    by (simp add: segment_items_def entry_is_item)
  show "\<exists>st'. playlist_append env this t nameOnly st = Inr st' \<and>
         mediaPlaylistTemplate t st' = mediaPlaylistTemplate t st @ [?entry] \<and>
         int (length (segment_items (mediaPlaylistTemplate t st'))) \<le> maxSegmentNum this"
    using below items by (simp add: playlist_append_def Let_def)
next
  let ?entry = "segmentTemplate env (segmentDuration st) (nameOnly @ ''.mp4'')"
  assume a: "int (length (segment_items (mediaPlaylistTemplate t st))) = maxSegmentNum this \<and>
    0 < maxSegmentNum this \<and>
    mediaPlaylistTemplate t st \<noteq> [] \<and>
    \<not> str_includes (hd (mediaPlaylistTemplate t st)) ''#EXTINF:'' \<and>
    media_sequence (mediaPlaylistTemplate t st) = Some n \<and> n < 2 ^ 53 \<and>
    resultPath this @ pathSuffix t
      @ after_last newline (hd (segment_items (mediaPlaylistTemplate t st))) \<in> set (files st)"
  then obtain item0 items where tpl: "mediaPlaylistTemplate t st = item0 # items"
    by (cases "mediaPlaylistTemplate t st") auto
  from a have hdr: "\<not> str_includes item0 ''#EXTINF:''" by (simp add: tpl)
  from a obtain oldItem rest
    where old: "segment_items (mediaPlaylistTemplate t st) = oldItem # rest"
    by (cases "segment_items (mediaPlaylistTemplate t st)") auto
  from a have oldfile: "resultPath this @ pathSuffix t @ after_last newline oldItem \<in> set (files st)"
    by (simp add: old)
  have seq0: "media_sequence_of item0 = Some n" using a by (simp add: tpl media_sequence_def)
  from bump_media_sequence_Some [OF seq0] obtain newItem
    where bump: "bump_media_sequence item0 = Some newItem"
      and seq': "media_sequence_of newItem = Some (Suc n)"
      and plain: "\<not> str_includes newItem ''#EXTINF:''"
    using hdr by auto
  from evict_oldest_ok [OF tpl hdr old [unfolded tpl] oldfile bump]
  obtain st1 where ev: "evict_oldest this t st = Inr st1"
    and tpl1: "mediaPlaylistTemplate t st1 = newItem # remove1 oldItem items"
    and keep: "segmentDuration st1 = segmentDuration st" "playlistFiles st1 = playlistFiles st"
    by blast
  have rest: "segment_items (remove1 oldItem items) = rest"
    using old hdr by (simp add: tpl segment_items_def filter_remove1_first)
  have items: "segment_items (newItem # remove1 oldItem items @ [?entry]) = rest @ [?entry]"
    using rest plain by (simp add: segment_items_def entry_is_item)
  have len: "int (length (rest @ [?entry])) = maxSegmentNum this"
    using a by (simp add: old)
  have "media_sequence (newItem # remove1 oldItem items @ [?entry]) = Some (n + 1)"
    using seq' by (simp add: media_sequence_def)
  then show "\<exists>st'. playlist_append env this t nameOnly st = Inr st' \<and>
         int (length (segment_items (mediaPlaylistTemplate t st'))) \<le> maxSegmentNum this \<and>
         segment_items (mediaPlaylistTemplate t st') =
           tl (segment_items (mediaPlaylistTemplate t st)) @ [?entry] \<and>
         tl (mediaPlaylistTemplate t st') =
           remove1 (hd (segment_items (mediaPlaylistTemplate t st)))
               (tl (mediaPlaylistTemplate t st)) @ [?entry] \<and>
         media_sequence (mediaPlaylistTemplate t st') = Some (n + 1)"
    using a ev tpl1 items len old [unfolded tpl]
    by (simp add: playlist_append_def Let_def tpl)
qed

text \<open>
  Both cases on the example playlist (header, then one entry): with a window of one the
  oldest entry is replaced and the integer goes from 7 to 8; with a window of three the
  entry is appended.
\<close>

theorem playlist_append_window_witness:
  "(\<exists>st'. playlist_append example_env window_of_one Audio ''1a'' example_state = Inr st' \<and>
          segment_items (audioMediaPLTemplate st') = [''#EXTINF:6,'' @ [newline] @ ''1a.mp4''] \<and>
          tl (audioMediaPLTemplate st') = [''#EXTINF:6,'' @ [newline] @ ''1a.mp4''] \<and>
          media_sequence (audioMediaPLTemplate st') = Some 8) \<and>
   (\<exists>st'. playlist_append example_env example_this Audio ''1a'' example_state = Inr st' \<and>
          audioMediaPLTemplate st' =
            audioMediaPLTemplate example_state @ [''#EXTINF:6,'' @ [newline] @ ''1a.mp4''])"
proof -
  have f1: "int (length (segment_items (mediaPlaylistTemplate Audio example_state))) =
        maxSegmentNum window_of_one" by code_simp
  have f2: "0 < maxSegmentNum window_of_one" by code_simp
  have f3: "mediaPlaylistTemplate Audio example_state \<noteq> []" by code_simp
  have f4: "\<not> str_includes (hd (mediaPlaylistTemplate Audio example_state)) ''#EXTINF:''"
    by code_simp
  have f5: "media_sequence (mediaPlaylistTemplate Audio example_state) = Some 7" by code_simp
  have f6: "(7::nat) < 2 ^ 53" by simp
  have f7: "resultPath window_of_one @ pathSuffix Audio
        @ after_last newline (hd (segment_items (mediaPlaylistTemplate Audio example_state)))
        \<in> set (files example_state)"
    by code_simp
  note full = conjI [OF f1 conjI [OF f2 conjI [OF f3 conjI [OF f4 conjI [OF f5 conjI [OF f6 f7]]]]]]
  have below: "int (length (segment_items (mediaPlaylistTemplate Audio example_state)))
      < maxSegmentNum example_this"
    by code_simp
  have after: "tl (segment_items (mediaPlaylistTemplate Audio example_state)) = []"
    "remove1 (hd (segment_items (mediaPlaylistTemplate Audio example_state)))
       (tl (mediaPlaylistTemplate Audio example_state)) = []"
    "segmentTemplate example_env (segmentDuration example_state) (''1a'' @ ''.mp4'') =
      ''#EXTINF:6,'' @ [newline] @ ''1a.mp4''"
    by code_simp+
  have a: "mediaPlaylistTemplate Audio s = audioMediaPLTemplate s" for s :: cycle_state
    by (simp add: mediaPlaylistTemplate_def)
  from playlist_append_window [where this = window_of_one and t = Audio and st = example_state
      and env = example_env and nameOnly = "''1a''" and n = 7, THEN conjunct2, THEN mp, OF full]
  obtain s1 where s1: "playlist_append example_env window_of_one Audio ''1a'' example_state = Inr s1"
    "segment_items (mediaPlaylistTemplate Audio s1) =
       tl (segment_items (mediaPlaylistTemplate Audio example_state))
         @ [segmentTemplate example_env (segmentDuration example_state) (''1a'' @ ''.mp4'')]"
    "tl (mediaPlaylistTemplate Audio s1) =
       remove1 (hd (segment_items (mediaPlaylistTemplate Audio example_state)))
           (tl (mediaPlaylistTemplate Audio example_state))
         @ [segmentTemplate example_env (segmentDuration example_state) (''1a'' @ ''.mp4'')]"
    "media_sequence (mediaPlaylistTemplate Audio s1) = Some (7 + 1)"
    by blast
  from playlist_append_window [where this = example_this and t = Audio and st = example_state
      and env = example_env and nameOnly = "''1a''" and n = 7, THEN conjunct1, THEN mp, OF below]
  obtain s2 where s2: "playlist_append example_env example_this Audio ''1a'' example_state = Inr s2"
    "mediaPlaylistTemplate Audio s2 =
       mediaPlaylistTemplate Audio example_state
         @ [segmentTemplate example_env (segmentDuration example_state) (''1a'' @ ''.mp4'')]"
    by blast
  have e1: "segment_items (audioMediaPLTemplate s1) = [''#EXTINF:6,'' @ [newline] @ ''1a.mp4'']"
    "tl (audioMediaPLTemplate s1) = [''#EXTINF:6,'' @ [newline] @ ''1a.mp4'']"
    "media_sequence (audioMediaPLTemplate s1) = Some 8"
    using s1(2-4) unfolding after by (simp_all add: a)
  have e2: "audioMediaPLTemplate s2 =
      audioMediaPLTemplate example_state @ [''#EXTINF:6,'' @ [newline] @ ''1a.mp4'']"
    using s2(2) unfolding after by (simp add: a)
  from s1(1) s2(1) e1 e2 show ?thesis by blast
qed

text \<open>
  Claim C3 as stated holds for every playlist whose entry count is at most
  \<open>maxSegmentNum_\<close>. On an audio playlist kept one line per element (\<open>#EXTM3U\<close>, then
  the directive, then one entry) with a window of one, the entry count equals
  \<open>maxSegmentNum_\<close>; the append removes the oldest entry and its file and then raises a
  \<open>TypeError\<close>: the media-sequence integer is still 7 and the new entry is not there.
\<close>

theorem playlist_append_on_line_playlist:
  "int (length (segment_items (audioMediaPLTemplate line_playlist_state))) =
     maxSegmentNum window_of_one \<and>
   step_raised (playlist_append example_env window_of_one Audio ''1a'' line_playlist_state) =
     Some TypeError \<and>
   audioMediaPLTemplate
     (state_after (playlist_append example_env window_of_one Audio ''1a'' line_playlist_state)) =
     [''#EXTM3U'', ''#EXT-X-MEDIA-SEQUENCE:7''] \<and>
   files (state_after (playlist_append example_env window_of_one Audio ''1a'' line_playlist_state)) =
     [''out/video/0f.mp4'']"
  by code_simp

lemma bump_needs_directive:
  "bump_media_sequence item = Some newItem \<Longrightarrow> \<exists>v. media_sequence_of item = Some v"
  using bump_media_sequence_None [of item] media_sequence_of_None [of item] by auto

lemma evict_oldest_outcome:
  "(\<exists>st1. evict_oldest this t st = Inr st1 \<and>
          media_sequence (after_eviction (mediaPlaylistTemplate t st)) \<noteq> None) \<or>
   (\<exists>st1. evict_oldest this t st = Inl (TypeError, st1)) \<or>
   (\<exists>st1. evict_oldest this t st = Inl (UnlinkFailed, st1))"
  by (auto simp add: evict_oldest_def after_eviction_def media_sequence_def Let_def
      split: list.splits option.splits dest: bump_needs_directive)

lemma evict_oldest_without_directive:
  "media_sequence (after_eviction (mediaPlaylistTemplate t st)) = None \<Longrightarrow>
   (\<exists>st1. evict_oldest this t st = Inl (TypeError, st1)) \<or>
   (\<exists>st1. evict_oldest this t st = Inl (UnlinkFailed, st1))"
  using evict_oldest_outcome [of this t st] by auto

lemma after_eviction_header:
  assumes "segment_items tpl \<noteq> []" and "tpl \<noteq> []" and "\<not> str_includes (hd tpl) ''#EXTINF:''"
  shows "media_sequence (after_eviction tpl) = media_sequence tpl"
proof -
  obtain item0 items where tpl: "tpl = item0 # items" using assms(2) by (cases tpl) auto
  obtain oldItem rest where old: "segment_items tpl = oldItem # rest"
    using assms(1) by (cases "segment_items tpl") auto
  then have "oldItem \<in> set (segment_items tpl)" by simp
  then have "str_includes oldItem ''#EXTINF:''" by (auto simp add: segment_items_def)
  with assms(3) have "oldItem \<noteq> item0" by (auto simp add: tpl)
  then show ?thesis by (simp add: after_eviction_def old) (simp add: tpl media_sequence_def)
qed

text \<open>
  Claim C10, as the code has it. In the eviction branch (the entry count equals
  \<open>maxSegmentNum_\<close>) the media-sequence integer is read from element 0 of the array as
  it is once the oldest entry has been removed. The append completes only if that
  element holds the directive; if it does not, the append raises a \<open>TypeError\<close> (or the
  \<open>unlinkSync\<close> before it fails), never the structured error. When the window is at
  least one and element 0 of the playlist is not itself an entry, that element is
  element 0 of the playlist.
\<close>

theorem eviction_reads_element_0:
  assumes "int (length (segment_items (mediaPlaylistTemplate t st))) = maxSegmentNum this"
  shows "(\<forall>st'. playlist_append env this t nameOnly st = Inr st' \<longrightarrow>
            media_sequence (after_eviction (mediaPlaylistTemplate t st)) \<noteq> None) \<and>
     (media_sequence (after_eviction (mediaPlaylistTemplate t st)) = None \<longrightarrow>
        step_raised (playlist_append env this t nameOnly st) = Some TypeError \<or>
        step_raised (playlist_append env this t nameOnly st) = Some UnlinkFailed) \<and>
     (\<forall>sev cat cd. step_raised (playlist_append env this t nameOnly st)
                     \<noteq> Some (StructuredError sev cat cd)) \<and>
     (0 < maxSegmentNum this \<and> mediaPlaylistTemplate t st \<noteq> [] \<and>
      \<not> str_includes (hd (mediaPlaylistTemplate t st)) ''#EXTINF:'' \<longrightarrow>
        media_sequence (after_eviction (mediaPlaylistTemplate t st)) =
          media_sequence (mediaPlaylistTemplate t st))"
proof (intro conjI allI impI)
  fix st'
  assume "playlist_append env this t nameOnly st = Inr st'"
  then show "media_sequence (after_eviction (mediaPlaylistTemplate t st)) \<noteq> None"
    using assms evict_oldest_outcome [of this t st]
    by (auto simp add: playlist_append_def Let_def split: sum.splits)
next
  assume "media_sequence (after_eviction (mediaPlaylistTemplate t st)) = None"
  from evict_oldest_without_directive [OF this, of this]
  show "step_raised (playlist_append env this t nameOnly st) = Some TypeError \<or>
        step_raised (playlist_append env this t nameOnly st) = Some UnlinkFailed"
    using assms by (auto simp add: playlist_append_def Let_def step_raised_def)
next
  fix sev cat cd
  show "step_raised (playlist_append env this t nameOnly st) \<noteq> Some (StructuredError sev cat cd)"
    using assms evict_oldest_outcome [of this t st]
    by (auto simp add: playlist_append_def Let_def step_raised_def split: sum.splits)
next
  assume a: "0 < maxSegmentNum this \<and> mediaPlaylistTemplate t st \<noteq> [] \<and>
      \<not> str_includes (hd (mediaPlaylistTemplate t st)) ''#EXTINF:''"
  with assms have "segment_items (mediaPlaylistTemplate t st) \<noteq> []" by auto
  with a show "media_sequence (after_eviction (mediaPlaylistTemplate t st)) =
          media_sequence (mediaPlaylistTemplate t st)"
    by (simp add: after_eviction_header)
qed

theorem eviction_reads_element_0_witness:
  "int (length (segment_items (mediaPlaylistTemplate Audio line_playlist_state))) =
     maxSegmentNum window_of_one \<and>
   media_sequence (after_eviction (mediaPlaylistTemplate Audio line_playlist_state)) = None \<and>
   (step_raised (playlist_append example_env window_of_one Audio ''1a'' line_playlist_state) =
      Some TypeError \<or>
    step_raised (playlist_append example_env window_of_one Audio ''1a'' line_playlist_state) =
      Some UnlinkFailed) \<and>
   int (length (segment_items (mediaPlaylistTemplate Audio example_state))) =
     maxSegmentNum window_of_one \<and>
   step_raised (playlist_append example_env window_of_one Audio ''1a'' example_state) = None \<and>
   media_sequence (after_eviction (mediaPlaylistTemplate Audio example_state)) =
     media_sequence (mediaPlaylistTemplate Audio example_state) \<and>
   media_sequence (mediaPlaylistTemplate Audio example_state) = Some 7"
proof -
  have full1: "int (length (segment_items (mediaPlaylistTemplate Audio line_playlist_state))) =
      maxSegmentNum window_of_one"
    and none: "media_sequence (after_eviction (mediaPlaylistTemplate Audio line_playlist_state)) = None"
    and full2: "int (length (segment_items (mediaPlaylistTemplate Audio example_state))) =
      maxSegmentNum window_of_one"
    and ok: "step_raised (playlist_append example_env window_of_one Audio ''1a'' example_state) = None"
    and wf: "0 < maxSegmentNum window_of_one \<and> mediaPlaylistTemplate Audio example_state \<noteq> [] \<and>
      \<not> str_includes (hd (mediaPlaylistTemplate Audio example_state)) ''#EXTINF:''"
    and seq: "media_sequence (mediaPlaylistTemplate Audio example_state) = Some 7"
    by code_simp+
  from eviction_reads_element_0 [OF full1, of example_env "''1a''"] none
  have fails: "step_raised (playlist_append example_env window_of_one Audio ''1a'' line_playlist_state) =
      Some TypeError \<or>
    step_raised (playlist_append example_env window_of_one Audio ''1a'' line_playlist_state) =
      Some UnlinkFailed" by blast
  from eviction_reads_element_0 [OF full2, of example_env "''1a''"] wf
  have same: "media_sequence (after_eviction (mediaPlaylistTemplate Audio example_state)) =
     media_sequence (mediaPlaylistTemplate Audio example_state)" by blast
  show ?thesis using full1 none fails full2 ok same seq by blast
qed

text \<open>
  Claim C10 as stated makes the directive in element 0 of the playlist a precondition,
  and says that the eviction fails when the header line sits anywhere else. On an audio
  playlist whose one entry comes before its header, with a window of one, element 0
  holds no directive and the header is element 1; the eviction removes element 0, so
  the header is read, and the append completes with media sequence 8.
\<close>

theorem eviction_with_header_after_entry:
  "media_sequence (audioMediaPLTemplate entry_first_state) = None \<and>
   int (length (segment_items (audioMediaPLTemplate entry_first_state))) =
     maxSegmentNum window_of_one \<and>
   step_raised (playlist_append example_env window_of_one Audio ''1a'' entry_first_state) = None \<and>
   audioMediaPLTemplate
     (state_after (playlist_append example_env window_of_one Audio ''1a'' entry_first_state)) =
     [''#EXT-X-MEDIA-SEQUENCE:8'', ''#EXTINF:6,'' @ [newline] @ ''1a.mp4'']"
  by code_simp

end
